theory Spec2Isabelle
  imports Main "HOL-Library.AList"
begin

section \<open>JavaScript values and strings\<close>

text \<open>
  The values the handlers inspect at run time: what a Firestore document, a JSON request
  body or a function argument can hold. A number is kept as an integer (the handlers only
  test numbers for truthiness and equality). \<open>JTimestamp ms\<close> is an
  \<open>admin.firestore.Timestamp\<close> read through \<open>toMillis()\<close>; \<open>JRef p\<close> is a
  \<open>DocumentReference\<close> whose \<open>path\<close> is \<open>p\<close>, the only stored value that has a
  \<open>get\<close> method. An object is the list of its own properties; a property is read
  through \<open>field\<close>, which yields \<open>JUndefined\<close> when it is absent.
\<close>

datatype jsval =
    JUndefined
  | JNull
  | JBool bool
  | JNum int
  | JStr string
  | JTimestamp int
  | JRef string
  | JArr "jsval list"
  | JObj "(string \<times> jsval) list"

type_synonym doc = "(string \<times> jsval) list"

definition field :: "doc \<Rightarrow> string \<Rightarrow> jsval" where
  "field d k = (case map_of d k of None \<Rightarrow> JUndefined | Some v \<Rightarrow> v)"

text \<open>What \<open>if (v)\<close>, \<open>!v\<close> and \<open>v && ...\<close> test.\<close>

fun truthy :: "jsval \<Rightarrow> bool" where
  "truthy JUndefined = False"
| "truthy JNull = False"
| "truthy (JBool b) = b"
| "truthy (JNum n) = (n \<noteq> 0)"
| "truthy (JStr s) = (s \<noteq> [])"
| "truthy (JTimestamp t) = True"
| "truthy (JRef p) = True"
| "truthy (JArr xs) = True"
| "truthy (JObj fs) = True"

text \<open>
  \<open>a === b\<close> between a stored value and a value of the request: primitives compare
  by value, and two objects are never the same object.
\<close>

fun strict_eq :: "jsval \<Rightarrow> jsval \<Rightarrow> bool" where
  "strict_eq JUndefined JUndefined = True"
| "strict_eq JNull JNull = True"
| "strict_eq (JBool a) (JBool b) = (a = b)"
| "strict_eq (JNum a) (JNum b) = (a = b)"
| "strict_eq (JStr a) (JStr b) = (a = b)"
| "strict_eq a b = False"

text \<open>\<open>typeof v === "object"\<close> (which holds of \<open>null\<close> as well).\<close>

fun typeof_object :: "jsval \<Rightarrow> bool" where
  "typeof_object JNull = True"
| "typeof_object (JTimestamp t) = True"
| "typeof_object (JRef p) = True"
| "typeof_object (JArr xs) = True"
| "typeof_object (JObj fs) = True"
| "typeof_object v = False"

text \<open>\<open>v.path\<close> of a value that is an object and not \<open>null\<close>.\<close>

fun path_property :: "jsval \<Rightarrow> jsval" where
  "path_property (JRef p) = JStr p"
| "path_property (JObj fs) = field fs ''path''"
| "path_property v = JUndefined"

text \<open>
  Whether the conversion of a value to a string (as in a template literal) raises. It
  calls the \<open>toString\<close> of an object, and a stored map that has a property of this
  name has a value there, not a function: the conversion ends in a \<open>TypeError\<close>. An
  array converts each of its elements.
\<close>

fun to_string_raises :: "jsval \<Rightarrow> bool" where
  "to_string_raises (JObj fs) = (map_of fs ''toString'' \<noteq> None)"
| "to_string_raises (JArr xs) = (\<exists>x\<in>set xs. to_string_raises x)"
| "to_string_raises v = False"

text \<open>\<open>s.split(c)\<close> for a one-character separator: one piece more than separators.\<close>

fun split_on :: "char \<Rightarrow> string \<Rightarrow> string list" where
  "split_on c [] = [[]]"
| "split_on c (x # xs) =
     (if x = c then [] # split_on c xs
      else (case split_on c xs of
              [] \<Rightarrow> [[x]]
            | p # ps \<Rightarrow> (x # p) # ps))"

text \<open>\<open>parts.join(sep)\<close>.\<close>

fun join_with :: "string \<Rightarrow> string list \<Rightarrow> string" where
  "join_with sep [] = []"
| "join_with sep [p] = p"
| "join_with sep (p # q # ps) = p @ sep @ join_with sep (q # ps)"

definition starts_with_slash :: "string \<Rightarrow> bool" where
  "starts_with_slash s = (case s of [] \<Rightarrow> False | x # xs \<Rightarrow> x = CHR ''/'')"

section \<open>Reference resolver (helper.js)\<close>

datatype js_error = TypeError

text \<open>\<open>pathString.split("/").filter((s) => s.length > 0)\<close>.\<close>

definition path_segments :: "string \<Rightarrow> string list" where
  "path_segments p = filter (\<lambda>s. s \<noteq> []) (split_on CHR ''/'' p)"

text \<open>
  The part of \<open>getParentClassRefPath\<close> after \<open>pathString\<close> has been chosen, for a
  \<open>pathString\<close> that is a string.
\<close>

definition parent_of_path :: "string \<Rightarrow> string option" where
  "parent_of_path pathString =
     (let segments = path_segments pathString in
      if length segments \<ge> 5 \<and> segments ! (length segments - 2) = ''subjects''
      then Some (''/'' @ join_with ''/'' (take (length segments - 2) segments))
      else None)"

text \<open>
  \<open>getParentClassRefPath(ref)\<close>. \<open>Inr None\<close> is the returned \<open>null\<close>. The second
  branch takes \<open>ref.path\<close> whenever it is truthy, whatever its type, and
  \<open>pathString.split\<close> is a function only on a string: on any other value the call
  raises a \<open>TypeError\<close>.
\<close>

definition getParentClassRefPath :: "jsval \<Rightarrow> js_error + string option" where
  "getParentClassRefPath ref =
     (case ref of
        JStr s \<Rightarrow>
          (if starts_with_slash s then Inr (parent_of_path s) else Inr None)
      | _ \<Rightarrow>
          (if typeof_object ref \<and> ref \<noteq> JNull \<and> truthy (path_property ref)
           then (case path_property ref of
                   JStr p \<Rightarrow> Inr (parent_of_path p)
                 | _ \<Rightarrow> Inl TypeError)
           else Inr None))"

text \<open>
  The same function in the words of the specification: the path a supported input
  carries, and its parent, got by dropping the last two non-empty segments when there are
  at least five and the second-to-last is \<open>subjects\<close>.
\<close>

definition input_path :: "jsval \<Rightarrow> string option" where
  "input_path ref =
     (case ref of
        JStr s \<Rightarrow> if starts_with_slash s then Some s else None
      | JRef p \<Rightarrow> Some p
      | JObj fs \<Rightarrow> (case field fs ''path'' of JStr p \<Rightarrow> Some p | _ \<Rightarrow> None)
      | _ \<Rightarrow> None)"

definition spec_deriveParentPath :: "jsval \<Rightarrow> string option" where
  "spec_deriveParentPath ref =
     (case input_path ref of
        None \<Rightarrow> None
      | Some s \<Rightarrow>
          (if 5 \<le> length (path_segments s) \<and> last (butlast (path_segments s)) = ''subjects''
           then Some (''/'' @ join_with ''/'' (butlast (butlast (path_segments s))))
           else None))"

text \<open>
  The inputs of the documented parameter type (a string or a \<open>DocumentReference\<close>)
  and every other value but one kind: an object whose \<open>path\<close> is truthy and not a
  string.
\<close>

definition path_is_string :: "jsval \<Rightarrow> bool" where
  "path_is_string ref =
     (case ref of
        JObj fs \<Rightarrow> (case field fs ''path'' of JStr p \<Rightarrow> True | v \<Rightarrow> \<not> truthy v)
      | _ \<Rightarrow> True)"

section \<open>Storage\<close>

text \<open>
  A collection is a list of documents under their ids, read through \<open>map_of\<close>: the
  first entry of an id is its document, \<open>docs_of\<close> lists every document once, in scan
  order. \<open>set_doc\<close> is \<open>doc(id).set(fields)\<close> (create or overwrite); \<open>update_doc\<close>
  is \<open>doc(id).update(fields)\<close> on a document that exists (the given fields replace or
  extend its own); \<open>batch_update\<close> is a committed batch of such updates.
\<close>

type_synonym collection = "(string \<times> doc) list"

definition docs_of :: "collection \<Rightarrow> (string \<times> doc) list" where
  "docs_of c = AList.clearjunk c"

definition get_doc :: "collection \<Rightarrow> string \<Rightarrow> doc option" where
  "get_doc c ident = map_of c ident"

definition set_doc :: "string \<Rightarrow> doc \<Rightarrow> collection \<Rightarrow> collection" where
  "set_doc ident d c = AList.update ident d c"

definition merge_fields :: "doc \<Rightarrow> doc \<Rightarrow> doc" where
  "merge_fields fs d = fold (\<lambda>(k, v). AList.update k v) fs d"

definition update_doc :: "string \<Rightarrow> doc \<Rightarrow> collection \<Rightarrow> collection" where
  "update_doc ident fs c = AList.map_entry ident (merge_fields fs) c"

definition batch_update :: "string list \<Rightarrow> doc \<Rightarrow> collection \<Rightarrow> collection" where
  "batch_update idents fs c = fold (\<lambda>ident. update_doc ident fs) idents c"

text \<open>
  \<open>collection.doc(id)\<close> needs a non-empty string: the storage library raises on
  anything else.
\<close>

definition doc_id :: "jsval \<Rightarrow> string option" where
  "doc_id v = (case v of JStr s \<Rightarrow> if s = [] then None else Some s | _ \<Rightarrow> None)"

text \<open>
  The storage calls of the handlers, each made at most once in a request. The environment
  of a request says which of them raise (a rejected promise), what the clocks read and
  what \<open>uuidv4()\<close> returns.
\<close>

datatype storage_call =
    SessionGet | SessionExpire | UserGet
  | UsersQuery | SessionsQuery | BatchCommit | SessionSet
  | SessionLogout | UserUpdate

record env =
  fails :: "storage_call \<Rightarrow> bool"
  now_ms :: int
  server_ms :: int
  uuid :: string

record store =
  sessions :: collection
  users :: collection

record response =
  status :: nat
  body :: doc

definition json_error :: "nat \<Rightarrow> string \<Rightarrow> response" where
  "json_error code msg = \<lparr>status = code, body = [(''error'', JStr msg)]\<rparr>"

definition json_message :: "string \<Rightarrow> response" where
  "json_message msg = \<lparr>status = 200, body = [(''message'', JStr msg)]\<rparr>"

section \<open>Authentication guard (authenticateToken)\<close>

text \<open>\<open>authHeader && authHeader.split(" ")[1]\<close>, with \<open>None\<close> for a falsy token.\<close>

definition bearer_token :: "string option \<Rightarrow> string option" where
  "bearer_token authHeader =
     (case authHeader of
        None \<Rightarrow> None
      | Some h \<Rightarrow>
          (if h = [] then None
           else (case split_on CHR '' '' h of
                   a # t # rest \<Rightarrow> if t = [] then None else Some t
                 | _ \<Rightarrow> None)))"

text \<open>
  The guard either answers the request itself or calls \<open>next()\<close> with \<open>req.user\<close>
  and \<open>req.userId\<close> set.
\<close>

datatype guard_result = Rejected response | Next doc string

definition auth_internal_error :: response where
  "auth_internal_error = json_error 500 ''Internal server error during authentication.''"

text \<open>The last part of the guard: the lookup of the session's user.\<close>

definition auth_load_user :: "env \<Rightarrow> doc \<Rightarrow> store \<Rightarrow> guard_result \<times> store" where
  "auth_load_user e session st =
     (case doc_id (field session ''userId'') of
        None \<Rightarrow> (Rejected auth_internal_error, st)
      | Some userId \<Rightarrow>
          (if fails e UserGet then (Rejected auth_internal_error, st)
           else (case get_doc (users st) userId of
                   None \<Rightarrow> (Rejected (json_error 404 ''User not found.''), st)
                 | Some user \<Rightarrow> (Next user userId, st))))"

definition authenticateToken :: "env \<Rightarrow> string option \<Rightarrow> store \<Rightarrow> guard_result \<times> store" where
  "authenticateToken e authHeader st =
     (case bearer_token authHeader of
        None \<Rightarrow> (Rejected (json_error 401 ''Authorization token required.''), st)
      | Some token \<Rightarrow>
          (if fails e SessionGet then (Rejected auth_internal_error, st)
           else (case get_doc (sessions st) token of
                   None \<Rightarrow> (Rejected (json_error 403 ''Invalid token.''), st)
                 | Some session \<Rightarrow>
                     (if field session ''isActive'' = JBool False
                      then (Rejected (json_error 403 ''Session expired or invalidated.''), st)
                      else (case field session ''expiresAt'' of
                              JTimestamp expiresAtMillis \<Rightarrow>
                                (if now_ms e > expiresAtMillis
                                 then (if fails e SessionExpire
                                       then (Rejected auth_internal_error, st)
                                       else (Rejected (json_error 403 ''Session expired due to inactivity.''),
                                             st\<lparr>sessions :=
                                                  update_doc token [(''isActive'', JBool False)]
                                                    (sessions st)\<rparr>))
                                 else auth_load_user e session st)
                            | _ \<Rightarrow> auth_load_user e session st)))))"

section \<open>Session lifecycle (login, logout, reset-password, profile)\<close>

definition SESSION_DURATION_MS :: int where
  "SESSION_DURATION_MS = 24 * 60 * 60 * 1000"

text \<open>\<open>usersCollection.where("email", "==", email)\<close>.\<close>

definition users_with_email :: "collection \<Rightarrow> jsval \<Rightarrow> (string \<times> doc) list" where
  "users_with_email c email = filter (\<lambda>(ident, d). field d ''email'' = email) (docs_of c)"

text \<open>\<open>sessionsCollection.where("userId", "==", userId).where("isActive", "==", true)\<close>.\<close>

definition active_sessions_of :: "collection \<Rightarrow> string \<Rightarrow> (string \<times> doc) list" where
  "active_sessions_of c userId =
     filter (\<lambda>(token, d). field d ''userId'' = JStr userId \<and> field d ''isActive'' = JBool True)
       (docs_of c)"

definition logged_out :: "env \<Rightarrow> doc" where
  "logged_out e = [(''isActive'', JBool False), (''logoutTime'', JTimestamp (server_ms e))]"

text \<open>
  \<open>cleanupPreviousSessions(userId)\<close>; \<open>None\<close> when the query or the commit raises,
  which leaves the store as it was.
\<close>

definition cleanupPreviousSessions :: "env \<Rightarrow> string \<Rightarrow> store \<Rightarrow> store option" where
  "cleanupPreviousSessions e userId st =
     (if fails e SessionsQuery then None
      else (let oldSessions = active_sessions_of (sessions st) userId in
            if oldSessions \<noteq> []
            then (if fails e BatchCommit then None
                  else Some (st\<lparr>sessions :=
                               batch_update (map fst oldSessions) (logged_out e) (sessions st)\<rparr>))
            else Some st))"

definition login_internal_error :: response where
  "login_internal_error = json_error 500 ''An unexpected server error occurred.''"

definition invalid_credentials :: response where
  "invalid_credentials = json_error 401 ''Invalid email or password.''"

definition new_session :: "env \<Rightarrow> string \<Rightarrow> doc" where
  "new_session e userId =
     [(''userId'', JStr userId),
      (''loginTime'', JTimestamp (server_ms e)),
      (''expiresAt'', JTimestamp (now_ms e + SESSION_DURATION_MS)),
      (''isActive'', JBool True)]"

definition login_success :: "env \<Rightarrow> string \<Rightarrow> doc \<Rightarrow> response" where
  "login_success e userId user =
     \<lparr>status = 200,
      body = [(''message'', JStr ''Login successful''),
              (''token'', JStr (uuid e)),
              (''expiresAt'', JTimestamp (now_ms e + SESSION_DURATION_MS)),
              (''user'', JObj [(''id'', JStr userId), (''is_new'', field user ''is_new'')])]\<rparr>"

definition login :: "env \<Rightarrow> doc \<Rightarrow> store \<Rightarrow> response \<times> store" where
  "login e reqBody st =
     (let email = field reqBody ''email''; password = field reqBody ''password'' in
      if \<not> truthy email \<or> \<not> truthy password
      then (json_error 400 ''Email and password are required.'', st)
      else if fails e UsersQuery then (login_internal_error, st)
      else (case take 1 (users_with_email (users st) email) of
              [] \<Rightarrow> (invalid_credentials, st)
            | (userId, user) # others \<Rightarrow>
                (if \<not> strict_eq (field user ''password_hash'') password
                 then (invalid_credentials, st)
                 else (case cleanupPreviousSessions e userId st of
                         None \<Rightarrow> (login_internal_error, st)
                       | Some st1 \<Rightarrow>
                           (if fails e SessionSet then (login_internal_error, st1)
                            else (login_success e userId user,
                                  st1\<lparr>sessions :=
                                        set_doc (uuid e) (new_session e userId)
                                          (sessions st1)\<rparr>))))))"

text \<open>
  The stores a login passes through: the store it starts from, then the store after each
  write it commits (the batch of \<open>cleanupPreviousSessions\<close>, when there is something
  to clean up, and the \<open>set\<close> of the new session). A crash between two storage
  calls leaves the last store reached so far.
\<close>

definition login_trace :: "env \<Rightarrow> doc \<Rightarrow> store \<Rightarrow> store list" where
  "login_trace e reqBody st =
     (let email = field reqBody ''email''; password = field reqBody ''password'' in
      if \<not> truthy email \<or> \<not> truthy password then [st]
      else if fails e UsersQuery then [st]
      else (case take 1 (users_with_email (users st) email) of
              [] \<Rightarrow> [st]
            | (userId, user) # others \<Rightarrow>
                (if \<not> strict_eq (field user ''password_hash'') password then [st]
                 else (case cleanupPreviousSessions e userId st of
                         None \<Rightarrow> [st]
                       | Some st1 \<Rightarrow>
                           st
                           # (if active_sessions_of (sessions st) userId \<noteq> [] then [st1] else [])
                           @ (if fails e SessionSet then []
                              else [st1\<lparr>sessions :=
                                          set_doc (uuid e) (new_session e userId)
                                            (sessions st1)\<rparr>])))))"

text \<open>The tokens of the sessions of a user that are active.\<close>

definition active_tokens :: "store \<Rightarrow> string \<Rightarrow> string list" where
  "active_tokens st userId = map fst (active_sessions_of (sessions st) userId)"

text \<open>
  \<open>POST /logout\<close>: the guard, then the handler, whose \<open>catch\<close> answers 200 as
  well. The handler reads the token from the header again; \<open>update\<close> raises on a
  document that does not exist.
\<close>

definition logout_handler :: "env \<Rightarrow> string option \<Rightarrow> store \<Rightarrow> response \<times> store" where
  "logout_handler e authHeader st =
     (case bearer_token authHeader of
        None \<Rightarrow> (json_message ''Logout process complete.'', st)
      | Some token \<Rightarrow>
          (if fails e SessionLogout \<or> get_doc (sessions st) token = None
           then (json_message ''Logout process complete.'', st)
           else (json_message ''Logout successful. Session invalidated.'',
                 st\<lparr>sessions := update_doc token (logged_out e) (sessions st)\<rparr>)))"

definition logout :: "env \<Rightarrow> string option \<Rightarrow> store \<Rightarrow> response \<times> store" where
  "logout e authHeader st =
     (case authenticateToken e authHeader st of
        (Rejected r, st1) \<Rightarrow> (r, st1)
      | (Next user userId, st1) \<Rightarrow> logout_handler e authHeader st1)"

text \<open>\<open>POST /reset-password\<close>: the guard, then the handler.\<close>

definition reset_password_handler :: "env \<Rightarrow> doc \<Rightarrow> string \<Rightarrow> store \<Rightarrow> response \<times> store" where
  "reset_password_handler e reqBody userId st =
     (let newPassword = field reqBody ''newPassword'' in
      if \<not> truthy newPassword then (json_error 400 ''newPassword is required.'', st)
      else if fails e UserUpdate \<or> get_doc (users st) userId = None
      then (json_error 500 ''An unexpected server error occurred during password reset.'', st)
      else (\<lparr>status = 200,
             body = [(''message'', JStr ''Password successfully updated for the authenticated user.''),
                     (''userId'', JStr userId)]\<rparr>,
            st\<lparr>users :=
                 update_doc userId
                   [(''password_hash'', newPassword),
                    (''updatedAt'', JTimestamp (server_ms e)),
                    (''is_new'', JBool False)]
                   (users st)\<rparr>))"

definition reset_password :: "env \<Rightarrow> string option \<Rightarrow> doc \<Rightarrow> store \<Rightarrow> response \<times> store" where
  "reset_password e authHeader reqBody st =
     (case authenticateToken e authHeader st of
        (Rejected r, st1) \<Rightarrow> (r, st1)
      | (Next user userId, st1) \<Rightarrow> reset_password_handler e reqBody userId st1)"

text \<open>
  \<open>GET /profile\<close>: \<open>const { password_hash, ...safeUser } = req.user\<close> copies every
  property of the user but \<open>password_hash\<close>.
\<close>

definition profile_handler :: "doc \<Rightarrow> string \<Rightarrow> response" where
  "profile_handler user userId =
     \<lparr>status = 200,
      body = [(''message'', JStr ''Authenticated profile data''),
              (''user'', JObj (AList.delete ''password_hash'' user)),
              (''userId'', JStr userId)]\<rparr>"

definition profile :: "env \<Rightarrow> string option \<Rightarrow> store \<Rightarrow> response \<times> store" where
  "profile e authHeader st =
     (case authenticateToken e authHeader st of
        (Rejected r, st1) \<Rightarrow> (r, st1)
      | (Next user userId, st1) \<Rightarrow> (profile_handler user userId, st1))"

section \<open>Enrollment aggregator (helper.js)\<close>

text \<open>
  \<open>fetchEnrolledClassesWithParents(db, usersCollection, userId)\<close> works on the storage
  it is given. A document snapshot has \<open>exists\<close>, \<open>id\<close>, \<open>ref.path\<close> and
  \<open>data()\<close>. Of \<open>db\<close> the function uses \<open>db.doc(path)\<close>, which gives a reference
  (kept as its path) or raises, and the \<open>get()\<close> of a reference, a promise that
  resolves to a snapshot or rejects; \<open>None\<close> is the raise. \<open>usersCollection\<close> is
  \<open>usersCollection.doc(id).get()\<close>.
\<close>

record snapshot =
  snap_exists :: bool
  snap_id :: string
  snap_path :: string
  snap_data :: doc

record firestore =
  db_doc :: "string \<Rightarrow> string option"
  db_get :: "string \<Rightarrow> snapshot option"

datatype fetch_error = UserProfileNotFound | StorageError | JsError js_error

text \<open>The \<open>console.warn\<close> calls, by their message and argument.\<close>

datatype warning =
    InvalidReference jsval
  | NoParentPath string
  | ParentNotFound string
  | SubjectNotFound string

record collected =
  fetchPromises :: "snapshot option list"
  validSubjectRefs :: "(string \<times> string) list"
  warnings :: "warning list"

text \<open>
  The body of \<open>enrolledRefs.forEach\<close> for one item. A raise inside it leaves the whole
  function. The warning for an item that is no reference is built with the item in a
  template literal.
\<close>

definition warn_invalid :: "jsval \<Rightarrow> collected \<Rightarrow> fetch_error + collected" where
  "warn_invalid refItem c =
     (if to_string_raises refItem then Inl (JsError TypeError)
      else Inr (c\<lparr>warnings := warnings c @ [InvalidReference refItem]\<rparr>))"

definition collect_pair :: "firestore \<Rightarrow> string \<Rightarrow> collected \<Rightarrow> fetch_error + collected" where
  "collect_pair db subjectPath c =
     (case getParentClassRefPath (JRef subjectPath) of
        Inl err \<Rightarrow> Inl (JsError err)
      | Inr None \<Rightarrow> Inr (c\<lparr>warnings := warnings c @ [NoParentPath subjectPath]\<rparr>)
      | Inr (Some parentPath) \<Rightarrow>
          (if parentPath = [] then Inr (c\<lparr>warnings := warnings c @ [NoParentPath subjectPath]\<rparr>)
           else (case db_doc db parentPath of
                   None \<Rightarrow> Inl StorageError
                 | Some parentRef \<Rightarrow>
                     Inr (c\<lparr>fetchPromises :=
                              fetchPromises c @ [db_get db subjectPath, db_get db parentRef],
                            validSubjectRefs :=
                              validSubjectRefs c @ [(subjectPath, parentPath)]\<rparr>))))"

definition collect_ref :: "firestore \<Rightarrow> jsval \<Rightarrow> collected \<Rightarrow> fetch_error + collected" where
  "collect_ref db refItem c =
     (case refItem of
        JRef p \<Rightarrow> collect_pair db p c
      | JStr s \<Rightarrow>
          (if starts_with_slash s
           then (case db_doc db s of
                   None \<Rightarrow> Inl StorageError
                 | Some subjectPath \<Rightarrow> collect_pair db subjectPath c)
           else warn_invalid refItem c)
      | _ \<Rightarrow> warn_invalid refItem c)"

fun collect_refs :: "firestore \<Rightarrow> jsval list \<Rightarrow> collected \<Rightarrow> fetch_error + collected" where
  "collect_refs db [] c = Inr c"
| "collect_refs db (refItem # refs) c =
     (case collect_ref db refItem c of
        Inl err \<Rightarrow> Inl err
      | Inr c1 \<Rightarrow> collect_refs db refs c1)"

text \<open>\<open>await Promise.all(fetchPromises)\<close>: every snapshot, or the rejection.\<close>

fun promise_all :: "'a option list \<Rightarrow> 'a list option" where
  "promise_all [] = Some []"
| "promise_all (None # ps) = None"
| "promise_all (Some x # ps) = (case promise_all ps of None \<Rightarrow> None | Some xs \<Rightarrow> Some (x # xs))"

text \<open>
  \<open>{ id: classSnapshot.id, ...classSnapshot.data() }\<close> and
  \<open>{ id, refPath, ...subjectData, parentClass: classData }\<close>: a later property
  replaces an earlier one of the same name.
\<close>

definition class_data :: "snapshot \<Rightarrow> doc" where
  "class_data classSnapshot =
     merge_fields (snap_data classSnapshot) [(''id'', JStr (snap_id classSnapshot))]"

definition subject_record :: "snapshot \<Rightarrow> jsval \<Rightarrow> doc" where
  "subject_record subjectSnapshot classData =
     AList.update ''parentClass'' classData
       (merge_fields (snap_data subjectSnapshot)
          [(''id'', JStr (snap_id subjectSnapshot)),
           (''refPath'', JStr (snap_path subjectSnapshot))])"

text \<open>
  One round of the loop over \<open>snapshots\<close>. \<open>snapshots[i + 1]\<close> and
  \<open>validSubjectRefs[i / 2]\<close> are \<open>None\<close> when the index is past the end
  (\<open>undefined\<close>, whose property access raises).
\<close>

definition pair_step ::
  "snapshot \<Rightarrow> snapshot option \<Rightarrow> (string \<times> string) option \<Rightarrow> doc list \<times> warning list
     \<Rightarrow> fetch_error + doc list \<times> warning list" where
  "pair_step subjectSnapshot classSnapshot refContext acc =
     (if snap_exists subjectSnapshot
      then (if (case classSnapshot of None \<Rightarrow> False | Some cls \<Rightarrow> snap_exists cls)
            then (case classSnapshot of
                    None \<Rightarrow> Inl (JsError TypeError)
                  | Some cls \<Rightarrow>
                      Inr (fst acc @ [subject_record subjectSnapshot (JObj (class_data cls))],
                           snd acc))
            else (case refContext of
                    None \<Rightarrow> Inl (JsError TypeError)
                  | Some ctx \<Rightarrow>
                      Inr (fst acc @ [subject_record subjectSnapshot JNull],
                           snd acc @ [ParentNotFound (snd ctx)])))
      else (case refContext of
              None \<Rightarrow> Inl (JsError TypeError)
            | Some ctx \<Rightarrow> Inr (fst acc, snd acc @ [SubjectNotFound (fst ctx)])))"

definition first_of :: "'a list \<Rightarrow> 'a option" where
  "first_of xs = (case xs of [] \<Rightarrow> None | x # rest \<Rightarrow> Some x)"

fun pair_loop ::
  "snapshot list \<Rightarrow> (string \<times> string) list \<Rightarrow> doc list \<times> warning list
     \<Rightarrow> fetch_error + doc list \<times> warning list" where
  "pair_loop [] refs acc = Inr acc"
| "pair_loop [subjectSnapshot] refs acc = pair_step subjectSnapshot None (first_of refs) acc"
| "pair_loop (subjectSnapshot # classSnapshot # rest) refs acc =
     (case pair_step subjectSnapshot (Some classSnapshot) (first_of refs) acc of
        Inl err \<Rightarrow> Inl err
      | Inr acc1 \<Rightarrow> pair_loop rest (tl refs) acc1)"

text \<open>
  \<open>Array.isArray(userData.enrolled_classes) ? userData.enrolled_classes : []\<close>.
\<close>

definition enrolled_refs :: "snapshot \<Rightarrow> jsval list" where
  "enrolled_refs userDoc =
     (case field (snap_data userDoc) ''enrolled_classes'' of JArr items \<Rightarrow> items | _ \<Rightarrow> [])"

text \<open>
  The function returns the subjects; the second component is what it has logged with
  \<open>console.warn\<close>, in order.
\<close>

definition fetchEnrolledClassesWithParents ::
  "firestore \<Rightarrow> (string \<Rightarrow> snapshot option) \<Rightarrow> string \<Rightarrow> fetch_error + doc list \<times> warning list" where
  "fetchEnrolledClassesWithParents db usersCollection userId =
     (case usersCollection userId of
        None \<Rightarrow> Inl StorageError
      | Some userDoc \<Rightarrow>
          (if \<not> snap_exists userDoc then Inl UserProfileNotFound
           else (let enrolledRefs = enrolled_refs userDoc
                 in if enrolledRefs = [] then Inr ([], [])
                    else (case collect_refs db enrolledRefs
                                 \<lparr>fetchPromises = [], validSubjectRefs = [], warnings = []\<rparr> of
                            Inl err \<Rightarrow> Inl err
                          | Inr c \<Rightarrow>
                              (if fetchPromises c = [] then Inr ([], warnings c)
                               else (case promise_all (fetchPromises c) of
                                       None \<Rightarrow> Inl StorageError
                                     | Some snapshots \<Rightarrow>
                                         pair_loop snapshots (validSubjectRefs c)
                                           ([], warnings c)))))))"

text \<open>
  The aggregator in the words of the specification, for a storage whose calls do not
  raise (\<open>doc_of\<close> and \<open>snap_of\<close> are its \<open>doc\<close> and \<open>get\<close>): what becomes
  of one enrollment reference. A reference that is neither a reference object nor a path
  string is skipped with a warning; so is one without a derivable parent path, and one
  whose subject document does not exist; a subject whose parent class document does not
  exist is included with \<open>parentClass\<close> null, with a warning; otherwise the subject is
  included with its parent class.
\<close>

definition spec_handle :: "(string \<Rightarrow> string) \<Rightarrow> jsval \<Rightarrow> string option" where
  "spec_handle doc_of refItem =
     (case refItem of
        JRef p \<Rightarrow> Some p
      | JStr s \<Rightarrow> if starts_with_slash s then Some (doc_of s) else None
      | _ \<Rightarrow> None)"

definition spec_resolve ::
  "(string \<Rightarrow> string) \<Rightarrow> (string \<Rightarrow> snapshot) \<Rightarrow> jsval \<Rightarrow> doc option \<times> warning list" where
  "spec_resolve doc_of snap_of refItem =
     (case spec_handle doc_of refItem of
        None \<Rightarrow> (None, [InvalidReference refItem])
      | Some subjectPath \<Rightarrow>
          (case spec_deriveParentPath (JRef subjectPath) of
             None \<Rightarrow> (None, [NoParentPath subjectPath])
           | Some parentPath \<Rightarrow>
               (if \<not> snap_exists (snap_of subjectPath)
                then (None, [SubjectNotFound subjectPath])
                else if \<not> snap_exists (snap_of (doc_of parentPath))
                then (Some (subject_record (snap_of subjectPath) JNull),
                      [ParentNotFound parentPath])
                else (Some (subject_record (snap_of subjectPath)
                              (JObj (class_data (snap_of (doc_of parentPath))))),
                      []))))"

text \<open>The warnings of the first pass (the shape of a reference) come before the others.\<close>

fun shape_warning :: "warning \<Rightarrow> bool" where
  "shape_warning (InvalidReference v) = True"
| "shape_warning (NoParentPath p) = True"
| "shape_warning w = False"

definition spec_subjects :: "(string \<Rightarrow> string) \<Rightarrow> (string \<Rightarrow> snapshot) \<Rightarrow> jsval list \<Rightarrow> doc list" where
  "spec_subjects doc_of snap_of refs = List.map_filter (\<lambda>r. fst (spec_resolve doc_of snap_of r)) refs"

definition spec_warnings ::
  "(string \<Rightarrow> string) \<Rightarrow> (string \<Rightarrow> snapshot) \<Rightarrow> jsval list \<Rightarrow> warning list" where
  "spec_warnings doc_of snap_of refs =
     (let ws = concat (map (\<lambda>r. snd (spec_resolve doc_of snap_of r)) refs)
      in filter shape_warning ws @ filter (\<lambda>w. \<not> shape_warning w) ws)"

text \<open>
  The two passes of the function, reference by reference: the pair of paths a reference
  contributes to the batch of reads and the warning of the first pass; the subject and the
  warning a pair of snapshots gives in the second.
\<close>

definition valid_pair :: "(string \<Rightarrow> string) \<Rightarrow> jsval \<Rightarrow> (string \<times> string) option" where
  "valid_pair doc_of refItem =
     (case spec_handle doc_of refItem of
        None \<Rightarrow> None
      | Some subjectPath \<Rightarrow>
          (case spec_deriveParentPath (JRef subjectPath) of
             None \<Rightarrow> None
           | Some parentPath \<Rightarrow> Some (subjectPath, parentPath)))"

definition shape_warnings :: "(string \<Rightarrow> string) \<Rightarrow> jsval \<Rightarrow> warning list" where
  "shape_warnings doc_of refItem =
     (case spec_handle doc_of refItem of
        None \<Rightarrow> [InvalidReference refItem]
      | Some subjectPath \<Rightarrow>
          (case spec_deriveParentPath (JRef subjectPath) of
             None \<Rightarrow> [NoParentPath subjectPath]
           | Some parentPath \<Rightarrow> []))"

definition pair_promises ::
  "(string \<Rightarrow> string) \<Rightarrow> (string \<Rightarrow> snapshot) \<Rightarrow> string \<times> string \<Rightarrow> snapshot list" where
  "pair_promises doc_of snap_of ctx = [snap_of (fst ctx), snap_of (doc_of (snd ctx))]"

definition pair_subject ::
  "(string \<Rightarrow> string) \<Rightarrow> (string \<Rightarrow> snapshot) \<Rightarrow> string \<times> string \<Rightarrow> doc option" where
  "pair_subject doc_of snap_of ctx =
     (if \<not> snap_exists (snap_of (fst ctx)) then None
      else if \<not> snap_exists (snap_of (doc_of (snd ctx)))
      then Some (subject_record (snap_of (fst ctx)) JNull)
      else Some (subject_record (snap_of (fst ctx))
                   (JObj (class_data (snap_of (doc_of (snd ctx)))))))"

definition pair_warnings ::
  "(string \<Rightarrow> string) \<Rightarrow> (string \<Rightarrow> snapshot) \<Rightarrow> string \<times> string \<Rightarrow> warning list" where
  "pair_warnings doc_of snap_of ctx =
     (if \<not> snap_exists (snap_of (fst ctx)) then [SubjectNotFound (fst ctx)]
      else if \<not> snap_exists (snap_of (doc_of (snd ctx))) then [ParentNotFound (snd ctx)]
      else [])"

section \<open>Login, one storage call at a time\<close>

text \<open>
  The handler of \<open>POST /login\<close> awaits four storage calls: the query of the user, the
  query of the user's active sessions, the commit of the batch and the \<open>set\<close> of the
  new session. Between two of them another request can run. \<open>login_step\<close> is the
  handler from one of these calls to the next: the state says which call is due
  (\<open>LCommit\<close> with the tokens its query has found), \<open>LDone\<close> holds the answer.
  \<open>login_steps\<close> runs one login for a number of steps.
\<close>

datatype login_state =
    LStart doc
  | LQuery string doc
  | LCommit string doc "string list"
  | LSet string doc
  | LDone response

fun login_step :: "env \<Rightarrow> login_state \<Rightarrow> store \<Rightarrow> login_state \<times> store" where
  "login_step e (LStart reqBody) st =
     (let email = field reqBody ''email''; password = field reqBody ''password'' in
      if \<not> truthy email \<or> \<not> truthy password
      then (LDone (json_error 400 ''Email and password are required.''), st)
      else if fails e UsersQuery then (LDone login_internal_error, st)
      else (case take 1 (users_with_email (users st) email) of
              [] \<Rightarrow> (LDone invalid_credentials, st)
            | (userId, user) # others \<Rightarrow>
                (if \<not> strict_eq (field user ''password_hash'') password
                 then (LDone invalid_credentials, st)
                 else (LQuery userId user, st))))"
| "login_step e (LQuery userId user) st =
     (if fails e SessionsQuery then (LDone login_internal_error, st)
      else (let oldSessions = active_sessions_of (sessions st) userId in
            if oldSessions \<noteq> [] then (LCommit userId user (map fst oldSessions), st)
            else (LSet userId user, st)))"
| "login_step e (LCommit userId user tokens) st =
     (if fails e BatchCommit then (LDone login_internal_error, st)
      else (LSet userId user,
            st\<lparr>sessions := batch_update tokens (logged_out e) (sessions st)\<rparr>))"
| "login_step e (LSet userId user) st =
     (if fails e SessionSet then (LDone login_internal_error, st)
      else (LDone (login_success e userId user),
            st\<lparr>sessions := set_doc (uuid e) (new_session e userId) (sessions st)\<rparr>))"
| "login_step e (LDone r) st = (LDone r, st)"

fun login_steps :: "nat \<Rightarrow> env \<Rightarrow> login_state \<times> store \<Rightarrow> login_state \<times> store" where
  "login_steps 0 e cfg = cfg"
| "login_steps (Suc n) e cfg = login_steps n e (login_step e (fst cfg) (snd cfg))"

text \<open>
  Requests running together on one store: a pool of logins, each with the environment of
  its request, and a schedule of actions. \<open>LoginStep i\<close> is the next storage call
  of login \<open>i\<close> of the pool, \<open>Write f\<close> is a write of any other request.
\<close>

type_synonym pool = "(env \<times> login_state) list"

datatype action = LoginStep nat | Write "store \<Rightarrow> store"

fun act :: "action \<Rightarrow> pool \<times> store \<Rightarrow> pool \<times> store" where
  "act (LoginStep i) (ps, st) =
     (if i < length ps
      then (case login_step (fst (ps ! i)) (snd (ps ! i)) st of
              (p1, st1) \<Rightarrow> (ps[i := (fst (ps ! i), p1)], st1))
      else (ps, st))"
| "act (Write f) (ps, st) = (ps, f st)"

fun run :: "action list \<Rightarrow> pool \<times> store \<Rightarrow> pool \<times> store" where
  "run [] cfg = cfg"
| "run (a # sched) cfg = run sched (act a cfg)"

text \<open>
  The store with other credentials: \<open>password_hash\<close> of every user set to what
  \<open>f\<close> gives for the user's id, everything else as it is.
\<close>

definition with_credentials :: "(string \<Rightarrow> jsval) \<Rightarrow> store \<Rightarrow> store" where
  "with_credentials f st =
     st\<lparr>users := AList.map_ran (\<lambda>userId d. AList.update ''password_hash'' (f userId) d) (users st)\<rparr>"

section \<open>The single-active-session invariant\<close>

text \<open>
  A session document is active for a user when its \<open>userId\<close> is the user's id and its
  \<open>isActive\<close> is the boolean \<open>true\<close>; the invariant says that no user has more than
  one such session.
\<close>

definition active_for :: "string \<Rightarrow> doc \<Rightarrow> bool" where
  "active_for userId d = (field d ''userId'' = JStr userId \<and> field d ''isActive'' = JBool True)"

definition single_active :: "store \<Rightarrow> bool" where
  "single_active st = (\<forall>userId. length (active_tokens st userId) \<le> 1)"

text \<open>
  A write is harmless for a user when it activates no session of the user: every session
  of the user that is active after it was active before it. A login is in its window for
  a user from its query of the user's active sessions to its write of the new session
  (the states \<open>LCommit\<close> and \<open>LSet\<close>). A schedule is admitted for a user when
  every write of another request is harmless for the user and no login queries the
  active sessions of the user while a login of the same user is in its window.
\<close>

definition harmless :: "string \<Rightarrow> store \<Rightarrow> store \<Rightarrow> bool" where
  "harmless userId st st1 = (set (active_tokens st1 userId) \<subseteq> set (active_tokens st userId))"

fun in_window :: "string \<Rightarrow> login_state \<Rightarrow> bool" where
  "in_window userId (LCommit u user tokens) = (u = userId)"
| "in_window userId (LSet u user) = (u = userId)"
| "in_window userId p = False"

fun allowed :: "string \<Rightarrow> action \<Rightarrow> pool \<times> store \<Rightarrow> bool" where
  "allowed userId (LoginStep i) (ps, st) =
     (if i < length ps
      then (case snd (ps ! i) of
              LQuery u user \<Rightarrow> u \<noteq> userId \<or> list_all (\<lambda>p. \<not> in_window userId (snd p)) ps
            | _ \<Rightarrow> True)
      else True)"
| "allowed userId (Write f) (ps, st) = harmless userId st (f st)"

fun sched_ok :: "string \<Rightarrow> action list \<Rightarrow> pool \<times> store \<Rightarrow> bool" where
  "sched_ok userId [] cfg = True"
| "sched_ok userId (a # sched) cfg = (allowed userId a cfg \<and> sched_ok userId sched (act a cfg))"

text \<open>
  What a login in its window relies on: before its commit the active sessions of the user
  are among those its query has found, before its write the user has none. \<open>pool_inv\<close>
  is the invariant of an admitted schedule: at most one active session, at most one login
  in its window, and every login's window condition.
\<close>

definition window_ok :: "string \<Rightarrow> login_state \<Rightarrow> store \<Rightarrow> bool" where
  "window_ok userId p st =
     (case p of
        LCommit u user tokens \<Rightarrow> u = userId \<longrightarrow> set (active_tokens st userId) \<subseteq> set tokens
      | LSet u user \<Rightarrow> u = userId \<longrightarrow> active_tokens st userId = []
      | _ \<Rightarrow> True)"

definition pool_inv :: "string \<Rightarrow> pool \<times> store \<Rightarrow> bool" where
  "pool_inv userId cfg =
     (length (active_tokens (snd cfg) userId) \<le> 1
      \<and> (\<forall>i<length (fst cfg). \<forall>j<length (fst cfg).
            in_window userId (snd (fst cfg ! i)) \<and> in_window userId (snd (fst cfg ! j)) \<longrightarrow> i = j)
      \<and> (\<forall>i<length (fst cfg). window_ok userId (snd (fst cfg ! i)) (snd cfg)))"

section \<open>Example data\<close>

text \<open>
  A request environment in which no storage call raises, and a store with one user who has
  an active and a logged-out session; a store whose only session document is malformed.
\<close>

definition demo_env :: env where
  "demo_env = \<lparr>fails = (\<lambda>c. False), now_ms = 1000, server_ms = 1001, uuid = ''tok2''\<rparr>"

definition demo_env2 :: env where
  "demo_env2 = \<lparr>fails = (\<lambda>c. False), now_ms = 1002, server_ms = 1003, uuid = ''tok3''\<rparr>"

definition demo_user :: doc where
  "demo_user = [(''email'', JStr ''a@b.c''), (''password_hash'', JStr ''pw''), (''is_new'', JBool True)]"

definition demo_store :: store where
  "demo_store =
     \<lparr>sessions =
        [(''tok1'', [(''userId'', JStr ''u1''), (''expiresAt'', JTimestamp 5000),
                    (''isActive'', JBool True)]),
         (''tok0'', [(''userId'', JStr ''u1''), (''expiresAt'', JTimestamp 500),
                    (''isActive'', JBool False)])],
      users = [(''u1'', demo_user)]\<rparr>"

definition stale_store :: store where
  "stale_store =
     \<lparr>sessions =
        [(''tok9'', [(''userId'', JStr ''u1''), (''expiresAt'', JNum 500),
                    (''isActive'', JStr ''no'')])],
      users = [(''u1'', demo_user)]\<rparr>"

definition demo_login :: doc where
  "demo_login = [(''email'', JStr ''a@b.c''), (''password'', JStr ''pw'')]"

definition demo_cleaned :: store where
  "demo_cleaned =
     \<lparr>sessions =
        [(''tok1'', [(''userId'', JStr ''u1''), (''expiresAt'', JTimestamp 5000),
                    (''isActive'', JBool False), (''logoutTime'', JTimestamp 1001)]),
         (''tok0'', [(''userId'', JStr ''u1''), (''expiresAt'', JTimestamp 500),
                    (''isActive'', JBool False)])],
      users = [(''u1'', demo_user)]\<rparr>"

definition demo_logged_in :: store where
  "demo_logged_in =
     \<lparr>sessions =
        [(''tok1'', [(''userId'', JStr ''u1''), (''expiresAt'', JTimestamp 5000),
                    (''isActive'', JBool False), (''logoutTime'', JTimestamp 1001)]),
         (''tok0'', [(''userId'', JStr ''u1''), (''expiresAt'', JTimestamp 500),
                    (''isActive'', JBool False)]),
         (''tok2'', [(''userId'', JStr ''u1''), (''loginTime'', JTimestamp 1001),
                    (''expiresAt'', JTimestamp 86401000), (''isActive'', JBool True)])],
      users = [(''u1'', demo_user)]\<rparr>"

text \<open>
  Two logins of the user of the example and a schedule in which the second login queries
  the active sessions after the first has written its session, with a logout and a
  profile request in between.
\<close>

definition demo_pool :: pool where
  "demo_pool = [(demo_env, LStart demo_login), (demo_env2, LStart demo_login)]"

definition demo_sched :: "action list" where
  "demo_sched =
     [LoginStep 0, LoginStep 1, LoginStep 0,
      Write (\<lambda>s. snd (logout demo_env2 (Some ''Bearer tok1'') s)),
      LoginStep 0,
      Write (\<lambda>s. snd (profile demo_env2 (Some ''Bearer tok0'') s)),
      LoginStep 0, LoginStep 1, LoginStep 1, LoginStep 1]"

text \<open>
  A storage with two subjects and one class (the class of the second subject is missing),
  and a user enrolled with five references: a good one, a string that is no path, a
  reference object whose class is missing, a path whose subject is missing, and a path
  that is no subject path.
\<close>

definition demo_db_doc :: "string \<Rightarrow> string" where
  "demo_db_doc p = join_with ''/'' (path_segments p)"

definition demo_snap :: "string \<Rightarrow> snapshot" where
  "demo_snap p =
     (if p = ''school/s1/classes/A/subjects/maths''
      then \<lparr>snap_exists = True, snap_id = ''maths'', snap_path = p,
            snap_data = [(''title'', JStr ''Maths'')]\<rparr>
      else if p = ''school/s1/classes/B/subjects/art''
      then \<lparr>snap_exists = True, snap_id = ''art'', snap_path = p,
            snap_data = [(''title'', JStr ''Art'')]\<rparr>
      else if p = ''school/s1/classes/A''
      then \<lparr>snap_exists = True, snap_id = ''A'', snap_path = p,
            snap_data = [(''name'', JStr ''First A'')]\<rparr>
      else \<lparr>snap_exists = False, snap_id = [], snap_path = p, snap_data = []\<rparr>)"

definition demo_db :: firestore where
  "demo_db = \<lparr>db_doc = (\<lambda>p. Some (demo_db_doc p)), db_get = (\<lambda>r. Some (demo_snap r))\<rparr>"

definition demo_enrolled :: "jsval list" where
  "demo_enrolled =
     [JStr ''/school/s1/classes/A/subjects/maths'',
      JStr ''not-a-path'',
      JRef ''school/s1/classes/B/subjects/art'',
      JStr ''/school/s1/classes/A/subjects/gone'',
      JStr ''/school/s1/classes/A'']"

definition demo_users :: "string \<Rightarrow> snapshot option" where
  "demo_users userId =
     (if userId = ''u1''
      then Some \<lparr>snap_exists = True, snap_id = ''u1'', snap_path = ''user/u1'',
                 snap_data = [(''enrolled_classes'', JArr demo_enrolled)]\<rparr>
      else Some \<lparr>snap_exists = False, snap_id = userId, snap_path = ''user/'' @ userId,
                 snap_data = []\<rparr>)"


text \<open>
  A user whose enrollment list holds, after a good reference, a stored map with a property
  named \<open>toString\<close>.
\<close>

definition demo_bad_users :: "string \<Rightarrow> snapshot option" where
  "demo_bad_users userId =
     Some \<lparr>snap_exists = True, snap_id = userId, snap_path = ''user/'' @ userId,
           snap_data =
             [(''enrolled_classes'',
               JArr [JStr ''/school/s1/classes/A/subjects/maths'',
                     JObj [(''toString'', JNum 1)]])]\<rparr>"

section \<open>Properties of the reference resolver\<close>

lemma split_on_nonempty: "split_on c s \<noteq> []"
  by (induction s) (auto split: list.splits)

lemma split_on_free: "p \<in> set (split_on c s) \<Longrightarrow> c \<notin> set p"
  by (induction s arbitrary: p) (auto split: list.splits if_splits)

lemma split_on_no_sep: "c \<notin> set p \<Longrightarrow> split_on c p = [p]"
  by (induction p) auto

lemma split_on_append: "c \<notin> set p \<Longrightarrow> split_on c (p @ c # r) = p # split_on c r"
  by (induction p) (auto simp: split_on_nonempty split: list.splits)

lemma split_join:
  "ps \<noteq> [] \<Longrightarrow> \<forall>p\<in>set ps. c \<notin> set p \<Longrightarrow> split_on c (join_with [c] ps) = ps"
  by (induction "[c]" ps rule: join_with.induct) (auto simp: split_on_no_sep split_on_append)

lemma path_segments_Nil [simp]: "path_segments [] = []"
  by (simp add: path_segments_def)

lemma path_segments_clean:
  "p \<in> set (path_segments s) \<Longrightarrow> p \<noteq> [] \<and> CHR ''/'' \<notin> set p"
  by (auto simp: path_segments_def dest: split_on_free)

text \<open>A path built from clean segments has exactly these segments.\<close>

lemma path_segments_join:
  assumes "\<forall>p\<in>set ps. p \<noteq> [] \<and> CHR ''/'' \<notin> set p"
  shows "path_segments (''/'' @ join_with ''/'' ps) = ps"
proof (cases ps)
  case Nil
  then show ?thesis by (simp add: path_segments_def)
next
  case (Cons a list)
  then have "split_on CHR ''/'' (join_with ''/'' ps) = ps"
    using assms split_join [of ps "CHR ''/''"] by auto
  then show ?thesis using assms by (simp add: path_segments_def filter_id_conv)
qed

lemma parent_of_path_spec:
  "parent_of_path s =
     (if 5 \<le> length (path_segments s) \<and> last (butlast (path_segments s)) = ''subjects''
      then Some (''/'' @ join_with ''/'' (butlast (butlast (path_segments s)))) else None)"
proof -
  have a: "butlast (butlast xs) = take (length xs - 2) xs" for xs :: "string list"
    by (simp add: butlast_conv_take numeral_2_eq_2)
  have b: "2 \<le> length xs \<Longrightarrow> last (butlast xs) = xs ! (length xs - 2)" for xs :: "string list"
  proof -
    assume l: "2 \<le> length xs"
    then have "butlast xs \<noteq> []" by (cases xs rule: rev_cases) auto
    then have "last (butlast xs) = butlast xs ! (length (butlast xs) - 1)"
      by (rule last_conv_nth)
    also have "\<dots> = xs ! (length xs - 2)"
      using l by (simp add: nth_butlast numeral_2_eq_2)
    finally show ?thesis .
  qed
  show ?thesis
    unfolding parent_of_path_def Let_def using a b [of "path_segments s"] by auto
qed

lemma getParentClassRefPath_refines:
  "path_is_string ref \<Longrightarrow> getParentClassRefPath ref = Inr (spec_deriveParentPath ref)"
  by (cases ref)
    (auto simp: getParentClassRefPath_def spec_deriveParentPath_def input_path_def
      path_is_string_def parent_of_path_spec split: jsval.splits)

lemma spec_deriveParentPath_segments:
  assumes "spec_deriveParentPath ref = Some p"
  shows "\<exists>s. input_path ref = Some s \<and> 5 \<le> length (path_segments s)
           \<and> last (butlast (path_segments s)) = ''subjects''
           \<and> path_segments p = butlast (butlast (path_segments s))"
proof -
  from assms obtain s where s: "input_path ref = Some s"
    and c: "5 \<le> length (path_segments s) \<and> last (butlast (path_segments s)) = ''subjects''"
    and p: "p = ''/'' @ join_with ''/'' (butlast (butlast (path_segments s)))"
    by (auto simp: spec_deriveParentPath_def split: option.splits if_splits)
  have "\<forall>q\<in>set (butlast (butlast (path_segments s))). q \<noteq> [] \<and> CHR ''/'' \<notin> set q"
    using path_segments_clean [of _ s] by (meson in_set_butlastD)
  then have "path_segments p = butlast (butlast (path_segments s))"
    unfolding p by (rule path_segments_join)
  with s c show ?thesis by blast
qed

text \<open>
  C3 (as stated): for every input the function returns the parent path or none, and never
  raises. It raises on an object whose \<open>path\<close> is a number.
\<close>

theorem getParentClassRefPath_raises:
  "getParentClassRefPath (JObj [(''path'', JNum 42)]) = Inl TypeError"
  by (simp add: getParentClassRefPath_def field_def)

text \<open>
  C3 (amended): for every input other than an object whose \<open>path\<close> is truthy and not a
  string, \<open>getParentClassRefPath\<close> does not raise and returns what the specification's
  \<open>deriveParentPath\<close> describes: a path exactly when the input is a string that starts
  with the separator or an object with a string \<open>path\<close>, this path has at least five
  non-empty segments and its second-to-last segment is \<open>subjects\<close>; the segments of
  the returned path are then those of the input without the last two. In every other case
  it returns none.
\<close>

theorem getParentClassRefPath_spec:
  assumes "path_is_string ref"
  shows "getParentClassRefPath ref = Inr (spec_deriveParentPath ref)
         \<and> (case spec_deriveParentPath ref of
              None \<Rightarrow>
                (case input_path ref of
                   None \<Rightarrow> True
                 | Some s \<Rightarrow> length (path_segments s) < 5
                             \<or> last (butlast (path_segments s)) \<noteq> ''subjects'')
            | Some p \<Rightarrow>
                (\<exists>s. input_path ref = Some s \<and> 5 \<le> length (path_segments s)
                      \<and> last (butlast (path_segments s)) = ''subjects''
                      \<and> path_segments p = butlast (butlast (path_segments s))))"
proof -
  have "getParentClassRefPath ref = Inr (spec_deriveParentPath ref)"
    using assms by (rule getParentClassRefPath_refines)
  moreover have "spec_deriveParentPath ref = None \<Longrightarrow> input_path ref = Some s \<Longrightarrow>
      length (path_segments s) < 5 \<or> last (butlast (path_segments s)) \<noteq> ''subjects''" for s
    by (auto simp: spec_deriveParentPath_def split: if_splits)
  ultimately show ?thesis
    using spec_deriveParentPath_segments [of ref]
    by (auto split: option.splits)
qed

theorem getParentClassRefPath_spec_witness:
  "path_is_string (JStr ''/school/s1/classes/FirstA/subjects/maths'')
   \<and> getParentClassRefPath (JStr ''/school/s1/classes/FirstA/subjects/maths'')
       = Inr (Some ''/school/s1/classes/FirstA'')
   \<and> getParentClassRefPath (JStr ''/school/s1/classes/FirstA'') = Inr None
   \<and> getParentClassRefPath (JNum 7) = Inr None"
  using getParentClassRefPath_spec [of "JStr ''/school/s1/classes/FirstA/subjects/maths''"]
    getParentClassRefPath_spec [of "JStr ''/school/s1/classes/FirstA''"]
    getParentClassRefPath_spec [of "JNum 7"]
  by (simp add: path_is_string_def spec_deriveParentPath_def input_path_def
      starts_with_slash_def path_segments_def)

section \<open>Properties of the authentication guard\<close>

lemma get_doc_update_doc:
  "get_doc (update_doc k fs c) t = (if t = k then map_option (merge_fields fs) (get_doc c k) else get_doc c t)"
  by (simp add: get_doc_def update_doc_def map_of_map_entry split: option.splits)

lemma field_update [simp]: "field (AList.update k v d) k' = (if k' = k then v else field d k')"
  by (simp add: field_def update_conv')

lemma guard_no_token:
  "bearer_token h = None \<Longrightarrow>
   authenticateToken e h st = (Rejected (json_error 401 ''Authorization token required.''), st)"
  by (simp add: authenticateToken_def)

lemma guard_session_get_fails:
  "bearer_token h = Some token \<Longrightarrow> fails e SessionGet \<Longrightarrow>
   authenticateToken e h st = (Rejected auth_internal_error, st)"
  by (simp add: authenticateToken_def)

lemma guard_no_session:
  "bearer_token h = Some token \<Longrightarrow> \<not> fails e SessionGet \<Longrightarrow> get_doc (sessions st) token = None \<Longrightarrow>
   authenticateToken e h st = (Rejected (json_error 403 ''Invalid token.''), st)"
  by (simp add: authenticateToken_def)

lemma guard_inactive:
  "bearer_token h = Some token \<Longrightarrow> \<not> fails e SessionGet \<Longrightarrow> get_doc (sessions st) token = Some session \<Longrightarrow>
   field session ''isActive'' = JBool False \<Longrightarrow>
   authenticateToken e h st = (Rejected (json_error 403 ''Session expired or invalidated.''), st)"
  by (simp add: authenticateToken_def)

lemma guard_expired:
  "bearer_token h = Some token \<Longrightarrow> \<not> fails e SessionGet \<Longrightarrow> get_doc (sessions st) token = Some session \<Longrightarrow>
   field session ''isActive'' \<noteq> JBool False \<Longrightarrow> field session ''expiresAt'' = JTimestamp x \<Longrightarrow> now_ms e > x \<Longrightarrow>
   authenticateToken e h st =
     (if fails e SessionExpire then (Rejected auth_internal_error, st)
      else (Rejected (json_error 403 ''Session expired due to inactivity.''),
            st\<lparr>sessions := update_doc token [(''isActive'', JBool False)] (sessions st)\<rparr>))"
  by (simp add: authenticateToken_def)

lemma guard_reaches_user:
  "bearer_token h = Some token \<Longrightarrow> \<not> fails e SessionGet \<Longrightarrow> get_doc (sessions st) token = Some session \<Longrightarrow>
   field session ''isActive'' \<noteq> JBool False \<Longrightarrow>
   \<not> (\<exists>x. field session ''expiresAt'' = JTimestamp x \<and> now_ms e > x) \<Longrightarrow>
   authenticateToken e h st = auth_load_user e session st"
  by (auto simp: authenticateToken_def split: jsval.splits)

lemma expired_session_inactive:
  "get_doc c token = Some session \<Longrightarrow>
   \<exists>s'. get_doc (update_doc token [(''isActive'', JBool False)] c) token = Some s'
        \<and> field s' ''isActive'' = JBool False"
  by (simp add: get_doc_update_doc merge_fields_def)

lemma auth_load_user_outcomes:
  "(\<exists>user userId. auth_load_user e session st = (Next user userId, st))
   \<or> (\<exists>r. auth_load_user e session st = (Rejected r, st) \<and> status r \<in> {404, 500})"
  by (simp add: auth_load_user_def auth_internal_error_def json_error_def split: option.splits)

lemma guard_outcomes:
  "(\<exists>user userId. authenticateToken e h st = (Next user userId, st))
   \<or> (\<exists>r st1. authenticateToken e h st = (Rejected r, st1) \<and> status r \<in> {401, 403, 404, 500})"
proof (cases "bearer_token h")
  case None
  then show ?thesis by (simp add: guard_no_token json_error_def)
next
  case (Some token)
  show ?thesis
  proof (cases "fails e SessionGet")
    case True
    with Some show ?thesis
      by (simp add: guard_session_get_fails auth_internal_error_def json_error_def)
  next
    case nf: False
    show ?thesis
    proof (cases "get_doc (sessions st) token")
      case None
      with Some nf show ?thesis by (simp add: guard_no_session json_error_def)
    next
      case (Some session)
      note sess = this
      show ?thesis
      proof (cases "field session ''isActive'' = JBool False")
        case True
        with \<open>bearer_token h = Some token\<close> nf sess show ?thesis
          by (simp add: guard_inactive json_error_def)
      next
        case act: False
        show ?thesis
        proof (cases "\<exists>x. field session ''expiresAt'' = JTimestamp x \<and> now_ms e > x")
          case True
          then obtain x where "field session ''expiresAt'' = JTimestamp x" "now_ms e > x" by blast
          from guard_expired [OF \<open>bearer_token h = Some token\<close> nf sess act this]
          show ?thesis by (simp add: auth_internal_error_def json_error_def)
        next
          case False
          from guard_reaches_user [OF \<open>bearer_token h = Some token\<close> nf sess act False]
            auth_load_user_outcomes [of e session st]
          show ?thesis by auto
        qed
      qed
    qed
  qed
qed

text \<open>
  C2: the guard stops at the first check that fails, in this order: no bearer token, 401;
  no session under the token, 403; \<open>isActive\<close> false, 403; an expiry that has passed,
  403, and the session is marked inactive (every other document is left as it was); no user
  under the session's \<open>userId\<close>, 404; otherwise \<open>next()\<close> with the user record and
  its id. A storage call that raises at any of these steps gives 500; there is no other
  outcome.
\<close>

theorem authenticateToken_first_failure:
  "(bearer_token h = None \<longrightarrow>
      authenticateToken e h st = (Rejected (json_error 401 ''Authorization token required.''), st))
   \<and> (\<forall>token. bearer_token h = Some token \<longrightarrow>
        (fails e SessionGet \<longrightarrow> authenticateToken e h st = (Rejected auth_internal_error, st))
      \<and> (\<not> fails e SessionGet \<longrightarrow>
          (get_doc (sessions st) token = None \<longrightarrow>
             authenticateToken e h st = (Rejected (json_error 403 ''Invalid token.''), st))
        \<and> (\<forall>session. get_doc (sessions st) token = Some session \<longrightarrow>
            (field session ''isActive'' = JBool False \<longrightarrow>
               authenticateToken e h st
                 = (Rejected (json_error 403 ''Session expired or invalidated.''), st))
          \<and> (field session ''isActive'' \<noteq> JBool False \<longrightarrow>
              (\<forall>x. field session ''expiresAt'' = JTimestamp x \<and> now_ms e > x \<longrightarrow>
                 (fails e SessionExpire \<longrightarrow>
                    authenticateToken e h st = (Rejected auth_internal_error, st))
               \<and> (\<not> fails e SessionExpire \<longrightarrow>
                    fst (authenticateToken e h st)
                      = Rejected (json_error 403 ''Session expired due to inactivity.'')
                  \<and> users (snd (authenticateToken e h st)) = users st
                  \<and> (\<forall>t. t \<noteq> token \<longrightarrow>
                        get_doc (sessions (snd (authenticateToken e h st))) t
                          = get_doc (sessions st) t)
                  \<and> (\<exists>s'. get_doc (sessions (snd (authenticateToken e h st))) token = Some s'
                          \<and> field s' ''isActive'' = JBool False)))
            \<and> (\<not> (\<exists>x. field session ''expiresAt'' = JTimestamp x \<and> now_ms e > x) \<longrightarrow>
                (doc_id (field session ''userId'') = None \<or> fails e UserGet \<longrightarrow>
                   authenticateToken e h st = (Rejected auth_internal_error, st))
              \<and> (\<forall>userId. doc_id (field session ''userId'') = Some userId \<and> \<not> fails e UserGet \<longrightarrow>
                  (get_doc (users st) userId = None \<longrightarrow>
                     authenticateToken e h st = (Rejected (json_error 404 ''User not found.''), st))
                \<and> (\<forall>user. get_doc (users st) userId = Some user \<longrightarrow>
                     authenticateToken e h st = (Next user userId, st))))))))
   \<and> status auth_internal_error = 500
   \<and> ((\<exists>user userId. authenticateToken e h st = (Next user userId, st))
      \<or> (\<exists>r st1. authenticateToken e h st = (Rejected r, st1) \<and> status r \<in> {401, 403, 404, 500}))"
proof -
  have 1: "bearer_token h = None \<longrightarrow>
      authenticateToken e h st = (Rejected (json_error 401 ''Authorization token required.''), st)"
    by (simp add: guard_no_token)
  have 2: "(fails e SessionGet \<longrightarrow> authenticateToken e h st = (Rejected auth_internal_error, st))"
    if "bearer_token h = Some token" for token
    using that by (simp add: guard_session_get_fails)
  have 3: "get_doc (sessions st) token = None \<longrightarrow>
             authenticateToken e h st = (Rejected (json_error 403 ''Invalid token.''), st)"
    if "bearer_token h = Some token" "\<not> fails e SessionGet" for token
    using that by (simp add: guard_no_session)
  have 4: "field session ''isActive'' = JBool False \<longrightarrow>
               authenticateToken e h st
                 = (Rejected (json_error 403 ''Session expired or invalidated.''), st)"
    if "bearer_token h = Some token" "\<not> fails e SessionGet" "get_doc (sessions st) token = Some session"
    for token session
    using that by (simp add: guard_inactive)
  have 5: "(fails e SessionExpire \<longrightarrow>
                    authenticateToken e h st = (Rejected auth_internal_error, st))
               \<and> (\<not> fails e SessionExpire \<longrightarrow>
                    fst (authenticateToken e h st)
                      = Rejected (json_error 403 ''Session expired due to inactivity.'')
                  \<and> users (snd (authenticateToken e h st)) = users st
                  \<and> (\<forall>t. t \<noteq> token \<longrightarrow>
                        get_doc (sessions (snd (authenticateToken e h st))) t
                          = get_doc (sessions st) t)
                  \<and> (\<exists>s'. get_doc (sessions (snd (authenticateToken e h st))) token = Some s'
                          \<and> field s' ''isActive'' = JBool False))"
    if "bearer_token h = Some token" "\<not> fails e SessionGet" "get_doc (sessions st) token = Some session"
      "field session ''isActive'' \<noteq> JBool False" "field session ''expiresAt'' = JTimestamp x" "now_ms e > x"
    for token session x
    using guard_expired [OF that] expired_session_inactive [OF that(3)]
    by (simp add: get_doc_update_doc)
  have 6: "(doc_id (field session ''userId'') = None \<or> fails e UserGet \<longrightarrow>
                   authenticateToken e h st = (Rejected auth_internal_error, st))
              \<and> (\<forall>userId. doc_id (field session ''userId'') = Some userId \<and> \<not> fails e UserGet \<longrightarrow>
                  (get_doc (users st) userId = None \<longrightarrow>
                     authenticateToken e h st = (Rejected (json_error 404 ''User not found.''), st))
                \<and> (\<forall>user. get_doc (users st) userId = Some user \<longrightarrow>
                     authenticateToken e h st = (Next user userId, st)))"
    if "bearer_token h = Some token" "\<not> fails e SessionGet" "get_doc (sessions st) token = Some session"
      "field session ''isActive'' \<noteq> JBool False"
      "\<not> (\<exists>x. field session ''expiresAt'' = JTimestamp x \<and> now_ms e > x)"
    for token session
    unfolding guard_reaches_user [OF that]
    by (auto simp: auth_load_user_def split: option.splits)
  have 7: "status auth_internal_error = 500"
    by (simp add: auth_internal_error_def json_error_def)
  show ?thesis
  proof (intro conjI allI impI)
    show "(\<exists>user userId. authenticateToken e h st = (Next user userId, st))
      \<or> (\<exists>r st1. authenticateToken e h st = (Rejected r, st1) \<and> status r \<in> {401, 403, 404, 500})"
      by (rule guard_outcomes)
  qed (use 1 2 3 4 5 6 7 in \<open>blast+\<close>)
qed


theorem authenticateToken_first_failure_witness:
  "authenticateToken demo_env (Some ''Bearer tok1'') demo_store
     = (Next demo_user ''u1'', demo_store)
   \<and> authenticateToken demo_env None demo_store
     = (Rejected (json_error 401 ''Authorization token required.''), demo_store)
   \<and> fst (authenticateToken (demo_env\<lparr>now_ms := 6000\<rparr>) (Some ''Bearer tok1'') demo_store)
     = Rejected (json_error 403 ''Session expired due to inactivity.'')
   \<and> active_tokens (snd (authenticateToken (demo_env\<lparr>now_ms := 6000\<rparr>) (Some ''Bearer tok1'') demo_store)) ''u1'' = []"
  using authenticateToken_first_failure [of "Some ''Bearer tok1''" demo_env demo_store] authenticateToken_first_failure [of None demo_env demo_store]
    authenticateToken_first_failure [of "Some ''Bearer tok1''" "demo_env\<lparr>now_ms := 6000\<rparr>" demo_store]
  by (simp add: bearer_token_def demo_env_def demo_store_def get_doc_def field_def doc_id_def
      authenticateToken_def active_tokens_def active_sessions_of_def docs_of_def update_doc_def merge_fields_def)


text \<open>
  C10: a session whose \<open>isActive\<close> is absent or anything but the boolean \<open>false\<close> is
  not rejected as inactive; a session whose \<open>expiresAt\<close> is absent or not a
  \<open>Timestamp\<close> is not rejected as expired, whatever the clock reads; a session with
  both defects goes on to the lookup of its user.
\<close>

theorem authenticateToken_malformed_session:
  assumes "bearer_token h = Some token" and "\<not> fails e SessionGet"
    and "get_doc (sessions st) token = Some session"
  shows "(field session ''isActive'' \<noteq> JBool False \<longrightarrow>
            fst (authenticateToken e h st)
              \<noteq> Rejected (json_error 403 ''Session expired or invalidated.''))
       \<and> ((\<forall>x. field session ''expiresAt'' \<noteq> JTimestamp x) \<longrightarrow>
            (\<forall>t. fst (authenticateToken (e\<lparr>now_ms := t\<rparr>) h st)
              \<noteq> Rejected (json_error 403 ''Session expired due to inactivity.'')))
       \<and> (field session ''isActive'' \<noteq> JBool False
            \<and> (\<forall>x. field session ''expiresAt'' \<noteq> JTimestamp x) \<longrightarrow>
            (\<forall>t. authenticateToken (e\<lparr>now_ms := t\<rparr>) h st = auth_load_user e session st))"
proof (intro conjI impI allI)
  assume a: "field session ''isActive'' \<noteq> JBool False"
  show "fst (authenticateToken e h st) \<noteq> Rejected (json_error 403 ''Session expired or invalidated.'')"
  proof (cases "\<exists>x. field session ''expiresAt'' = JTimestamp x \<and> now_ms e > x")
    case True
    then obtain x where "field session ''expiresAt'' = JTimestamp x" "now_ms e > x" by blast
    from guard_expired [OF assms a this] show ?thesis
      by (simp add: auth_internal_error_def json_error_def)
  next
    case False
    from guard_reaches_user [OF assms a False] auth_load_user_outcomes [of e session st]
    show ?thesis by (auto simp: json_error_def)
  qed
next
  fix t
  assume b: "\<forall>x. field session ''expiresAt'' \<noteq> JTimestamp x"
  have f: "\<not> fails (e\<lparr>now_ms := t\<rparr>) SessionGet" using assms(2) by simp
  show "fst (authenticateToken (e\<lparr>now_ms := t\<rparr>) h st)
      \<noteq> Rejected (json_error 403 ''Session expired due to inactivity.'')"
  proof (cases "field session ''isActive'' = JBool False")
    case True
    from guard_inactive [OF assms(1) f assms(3) True] show ?thesis
      by (simp add: json_error_def)
  next
    case False
    have "\<not> (\<exists>x. field session ''expiresAt'' = JTimestamp x \<and> now_ms (e\<lparr>now_ms := t\<rparr>) > x)"
      using b by simp
    from guard_reaches_user [OF assms(1) f assms(3) False this]
      auth_load_user_outcomes [of "e\<lparr>now_ms := t\<rparr>" session st]
    show ?thesis by (auto simp: json_error_def)
  qed
next
  fix t
  assume c: "field session ''isActive'' \<noteq> JBool False \<and> (\<forall>x. field session ''expiresAt'' \<noteq> JTimestamp x)"
  have f: "\<not> fails (e\<lparr>now_ms := t\<rparr>) SessionGet" using assms(2) by simp
  have "\<not> (\<exists>x. field session ''expiresAt'' = JTimestamp x \<and> now_ms (e\<lparr>now_ms := t\<rparr>) > x)"
    using c by simp
  from guard_reaches_user [OF assms(1) f assms(3) _ this] c
  show "authenticateToken (e\<lparr>now_ms := t\<rparr>) h st = auth_load_user e session st"
    by (simp add: auth_load_user_def split: option.splits)
qed


theorem authenticateToken_malformed_session_witness:
  "fst (authenticateToken (demo_env\<lparr>now_ms := 999999\<rparr>) (Some ''Bearer tok9'') stale_store)
     = Next demo_user ''u1''"
  using authenticateToken_malformed_session [of "Some ''Bearer tok9''" "''tok9''" demo_env stale_store
      "[(''userId'', JStr ''u1''), (''expiresAt'', JNum 500), (''isActive'', JStr ''no'')]"]
  by (simp add: bearer_token_def demo_env_def stale_store_def get_doc_def field_def auth_load_user_def doc_id_def)


section \<open>Properties of logout\<close>

lemma status_json_message [simp]: "status (json_message m) = 200"
  by (simp add: json_message_def)

lemma status_json_error [simp]: "status (json_error c m) = c"
  by (simp add: json_error_def)

lemma logout_handler_status: "status (fst (logout_handler e h st)) = 200"
  by (simp add: logout_handler_def split: option.splits)

lemma logout_handler_users: "users (snd (logout_handler e h st)) = users st"
  by (simp add: logout_handler_def split: option.splits)

text \<open>
  C5 (as stated): logout answers with success for every token, also when the session is
  already inactive or does not exist. Both requests are answered 403 by the guard.
\<close>

theorem logout_rejects_inactive_and_unknown:
  "status (fst (logout demo_env (Some ''Bearer tok0'') demo_store)) = 403
   \<and> status (fst (logout demo_env (Some ''Bearer nope'') demo_store)) = 403"
  by (simp add: logout_def authenticateToken_def bearer_token_def demo_env_def demo_store_def
      get_doc_def field_def)

text \<open>
  C5 (amended): \<open>POST /logout\<close> runs behind the guard. A request the guard rejects gets
  the guard's answer: 403 when no session is stored under the token or the session is
  already inactive. A request the guard admits is always answered 200, also when the
  update of the session raises, and when the update does not raise the session is
  inactive afterwards.
\<close>

theorem logout_after_guard:
  "(\<forall>r st1. authenticateToken e h st = (Rejected r, st1) \<longrightarrow> logout e h st = (r, st1))
   \<and> (\<forall>user userId st1. authenticateToken e h st = (Next user userId, st1) \<longrightarrow>
        status (fst (logout e h st)) = 200
        \<and> (\<forall>token. bearer_token h = Some token \<and> \<not> fails e SessionLogout \<longrightarrow>
              (\<exists>s'. get_doc (sessions (snd (logout e h st))) token = Some s'
                    \<and> field s' ''isActive'' = JBool False)))
   \<and> (\<forall>token. bearer_token h = Some token \<and> \<not> fails e SessionGet \<longrightarrow>
        (get_doc (sessions st) token = None \<longrightarrow> status (fst (logout e h st)) = 403)
        \<and> (\<forall>session. get_doc (sessions st) token = Some session
               \<and> field session ''isActive'' = JBool False \<longrightarrow>
               status (fst (logout e h st)) = 403))"
proof (intro conjI allI impI)
  fix r st1 assume "authenticateToken e h st = (Rejected r, st1)"
  then show "logout e h st = (r, st1)" by (simp add: logout_def)
next
  fix user userId st1 assume "authenticateToken e h st = (Next user userId, st1)"
  then show "status (fst (logout e h st)) = 200"
    by (simp add: logout_def logout_handler_status)
next
  fix user userId st1 token
  assume n: "authenticateToken e h st = (Next user userId, st1)"
    and t: "bearer_token h = Some token \<and> \<not> fails e SessionLogout"
  from n guard_outcomes [of e h st] have st1: "st1 = st" by auto
  have "get_doc (sessions st) token \<noteq> None"
  proof
    assume "get_doc (sessions st) token = None"
    then have "\<exists>r. authenticateToken e h st = (Rejected r, st)"
      using t by (cases "fails e SessionGet") (simp_all add: guard_session_get_fails guard_no_session)
    with n show False by auto
  qed
  then obtain session where s: "get_doc (sessions st) token = Some session" by blast
  with n t st1 show "\<exists>s'. get_doc (sessions (snd (logout e h st))) token = Some s'
                    \<and> field s' ''isActive'' = JBool False"
    by (simp add: logout_def logout_handler_def get_doc_update_doc merge_fields_def logged_out_def)
next
  fix token assume "bearer_token h = Some token \<and> \<not> fails e SessionGet"
    and "get_doc (sessions st) token = None"
  then show "status (fst (logout e h st)) = 403"
    by (simp add: logout_def guard_no_session)
next
  fix token session
  assume "bearer_token h = Some token \<and> \<not> fails e SessionGet"
    and "get_doc (sessions st) token = Some session \<and> field session ''isActive'' = JBool False"
  then show "status (fst (logout e h st)) = 403"
    by (simp add: logout_def guard_inactive)
qed


theorem logout_after_guard_witness:
  "logout demo_env (Some ''Bearer tok1'') demo_store
     = (json_message ''Logout successful. Session invalidated.'',
        demo_store\<lparr>sessions :=
          [(''tok1'', [(''userId'', JStr ''u1''), (''expiresAt'', JTimestamp 5000),
                      (''isActive'', JBool False), (''logoutTime'', JTimestamp 1001)]),
           (''tok0'', [(''userId'', JStr ''u1''), (''expiresAt'', JTimestamp 500),
                      (''isActive'', JBool False)])]\<rparr>)
   \<and> fst (logout (demo_env\<lparr>fails := (\<lambda>c. c = SessionLogout)\<rparr>) (Some ''Bearer tok1'') demo_store)
       = json_message ''Logout process complete.''"
  using logout_after_guard [of demo_env "Some ''Bearer tok1''" demo_store]
  by (simp add: logout_def logout_handler_def authenticateToken_def auth_load_user_def doc_id_def
        bearer_token_def demo_env_def demo_store_def demo_user_def get_doc_def field_def
        update_doc_def merge_fields_def logged_out_def)

section \<open>Properties of login, profile and reset-password\<close>

text \<open>
  C7 (as stated): a login with the user's email and a password that differs from the stored
  credential is answered 401. The empty password differs from the stored credential of the
  example, and the request is answered 400.
\<close>

theorem login_empty_password:
  "login demo_env [(''email'', JStr ''a@b.c''), (''password'', JStr '''')] demo_store
     = (json_error 400 ''Email and password are required.'', demo_store)
   \<and> users_with_email (users demo_store) (JStr ''a@b.c'') = [(''u1'', demo_user)]
   \<and> \<not> strict_eq (field demo_user ''password_hash'') (JStr '''')"
  by (simp add: login_def Let_def field_def users_with_email_def docs_of_def demo_store_def
      demo_user_def)

text \<open>
  C7 (amended): when the user found under the email has a credential that differs from the
  password of the request, login leaves the store as it was (no session is created, none is
  deactivated) and answers 400 when the email or the password is missing or empty, 500
  when the query of the user raises, and 401 otherwise.
\<close>

theorem login_wrong_password:
  assumes "users_with_email (users st) (field reqBody ''email'') = (userId, user) # others"
    and "\<not> strict_eq (field user ''password_hash'') (field reqBody ''password'')"
  shows "login e reqBody st
           = (if \<not> truthy (field reqBody ''email'') \<or> \<not> truthy (field reqBody ''password'')
              then json_error 400 ''Email and password are required.''
              else if fails e UsersQuery then login_internal_error
              else invalid_credentials,
              st)
       \<and> status invalid_credentials = 401
       \<and> status login_internal_error = 500"
  using assms by (simp add: login_def Let_def invalid_credentials_def login_internal_error_def)

theorem login_wrong_password_witness:
  "login demo_env [(''email'', JStr ''a@b.c''), (''password'', JStr ''guess'')] demo_store
     = (json_error 401 ''Invalid email or password.'', demo_store)"
  using login_wrong_password [of demo_store "[(''email'', JStr ''a@b.c''), (''password'', JStr ''guess'')]"
      "''u1''" demo_user "[]" demo_env]
  by (simp add: users_with_email_def docs_of_def demo_store_def demo_user_def demo_env_def field_def
      invalid_credentials_def prod_eq_iff)

lemma field_delete_same [simp]: "field (AList.delete k d) k = JUndefined"
  by (simp add: field_def delete_conv')

lemma login_status_200:
  assumes "status (fst (login e reqBody st)) = 200"
  shows "\<exists>userId user others.
           users_with_email (users st) (field reqBody ''email'') = (userId, user) # others
           \<and> strict_eq (field user ''password_hash'') (field reqBody ''password'')
           \<and> fst (login e reqBody st) = login_success e userId user"
proof -
  let ?us = "users_with_email (users st) (field reqBody ''email'')"
  show ?thesis
  proof (cases ?us)
    case Nil
    with assms show ?thesis
      by (simp add: login_def Let_def login_internal_error_def invalid_credentials_def split: if_splits)
  next
    case (Cons p others)
    obtain userId user where p: "p = (userId, user)" by (cases p)
    with Cons assms show ?thesis
      by (auto simp: login_def Let_def login_internal_error_def invalid_credentials_def
          split: if_splits option.splits)
  qed
qed

lemma sessions_with_credentials [simp]: "sessions (with_credentials f st) = sessions st"
  by (simp add: with_credentials_def)




lemma login_success_credential [simp]:
  "login_success e userId (AList.update ''password_hash'' v user) = login_success e userId user"
  by (simp add: login_success_def)

lemma profile_handler_credential [simp]:
  "profile_handler (AList.update ''password_hash'' v user) userId = profile_handler user userId"
  by (simp add: profile_handler_def delete_update_same)











lemma reset_handler_sessions: "sessions (snd (reset_password_handler e reqBody userId st)) = sessions st"
  by (simp add: reset_password_handler_def Let_def)

lemma reset_handler_200:
  assumes "status (fst (reset_password_handler e reqBody userId st)) = 200"
  shows "truthy (field reqBody ''newPassword'') \<and> \<not> fails e UserUpdate
       \<and> (\<exists>user. get_doc (users st) userId = Some user)
       \<and> (\<exists>user'. get_doc (users (snd (reset_password_handler e reqBody userId st))) userId = Some user'
             \<and> field user' ''password_hash'' = field reqBody ''newPassword''
             \<and> field user' ''is_new'' = JBool False)"
  using assms
  by (auto simp: reset_password_handler_def Let_def get_doc_update_doc merge_fields_def split: if_splits)

lemma guard_next:
  assumes "authenticateToken e h st = (Next user userId, st1)"
  shows "st1 = st \<and> get_doc (users st) userId = Some user"
proof -
  from guard_outcomes [of e h st] assms have st1: "st1 = st" by auto
  have "get_doc (users st) userId = Some user"
  proof (cases "bearer_token h")
    case None
    with assms show ?thesis by (simp add: guard_no_token)
  next
    case (Some token)
    show ?thesis
    proof (cases "fails e SessionGet")
      case True
      with Some assms show ?thesis by (simp add: guard_session_get_fails)
    next
      case nf: False
      show ?thesis
      proof (cases "get_doc (sessions st) token")
        case None
        with Some nf assms show ?thesis by (simp add: guard_no_session)
      next
        case sess: (Some session)
        show ?thesis
        proof (cases "field session ''isActive'' = JBool False")
          case True
          with Some nf sess assms show ?thesis by (simp add: guard_inactive)
        next
          case act: False
          show ?thesis
          proof (cases "\<exists>x. field session ''expiresAt'' = JTimestamp x \<and> now_ms e > x")
            case True
            then obtain x where "field session ''expiresAt'' = JTimestamp x" "now_ms e > x" by blast
            from guard_expired [OF Some nf sess act this] assms show ?thesis
              by (simp split: if_splits)
          next
            case False
            from guard_reaches_user [OF Some nf sess act False] assms show ?thesis
              by (auto simp: auth_load_user_def split: option.splits if_splits)
          qed
        qed
      qed
    qed
  qed
  with st1 show ?thesis by simp
qed

text \<open>
  C9 (as stated): for every new credential the reset overwrites the credential field. For
  the empty string and for the number 0 the handler answers 400 and changes nothing.
\<close>

theorem reset_password_empty:
  "reset_password demo_env (Some ''Bearer tok1'') [(''newPassword'', JStr '''')] demo_store
     = (json_error 400 ''newPassword is required.'', demo_store)
   \<and> reset_password demo_env (Some ''Bearer tok1'') [(''newPassword'', JNum 0)] demo_store
     = (json_error 400 ''newPassword is required.'', demo_store)"
  by (simp add: reset_password_def reset_password_handler_def authenticateToken_def
      auth_load_user_def doc_id_def bearer_token_def demo_env_def demo_store_def demo_user_def
      get_doc_def field_def)

text \<open>
  C9 (amended): the reset-password handler never changes a session document. A new
  password that is missing or falsy is answered 400 and nothing is written. For a truthy
  one, when the update does not raise, the handler overwrites \<open>password_hash\<close> of
  the authenticated user (the one the guard has loaded), sets \<open>is_new\<close> to false and
  leaves the other users alone; whenever the route answers 200 the sessions are what they
  were and it is the authenticated user's record that carries the new credential.
\<close>

theorem reset_password_frame:
  "sessions (snd (reset_password_handler e reqBody userId st)) = sessions st
   \<and> (\<not> truthy (field reqBody ''newPassword'') \<longrightarrow>
        reset_password_handler e reqBody userId st
          = (json_error 400 ''newPassword is required.'', st))
   \<and> (truthy (field reqBody ''newPassword'') \<and> \<not> fails e UserUpdate
        \<and> get_doc (users st) userId \<noteq> None \<longrightarrow>
      status (fst (reset_password_handler e reqBody userId st)) = 200
      \<and> (\<exists>user'. get_doc (users (snd (reset_password_handler e reqBody userId st))) userId = Some user'
             \<and> field user' ''password_hash'' = field reqBody ''newPassword''
             \<and> field user' ''is_new'' = JBool False)
      \<and> (\<forall>other. other \<noteq> userId \<longrightarrow>
            get_doc (users (snd (reset_password_handler e reqBody userId st))) other
              = get_doc (users st) other))
   \<and> (\<forall>user uid st1. authenticateToken e h st = (Next user uid, st1) \<longrightarrow>
        reset_password e h reqBody st = reset_password_handler e reqBody uid st
        \<and> get_doc (users st) uid = Some user
        \<and> (truthy (field reqBody ''newPassword'') \<and> \<not> fails e UserUpdate \<longrightarrow>
             status (fst (reset_password e h reqBody st)) = 200
             \<and> sessions (snd (reset_password e h reqBody st)) = sessions st
             \<and> (\<exists>user'. get_doc (users (snd (reset_password e h reqBody st))) uid = Some user'
                    \<and> field user' ''password_hash'' = field reqBody ''newPassword''
                    \<and> field user' ''is_new'' = JBool False)))
   \<and> (status (fst (reset_password e h reqBody st)) = 200 \<longrightarrow>
        sessions (snd (reset_password e h reqBody st)) = sessions st
        \<and> truthy (field reqBody ''newPassword'')
        \<and> (\<exists>user uid user'. authenticateToken e h st = (Next user uid, st)
             \<and> get_doc (users (snd (reset_password e h reqBody st))) uid = Some user'
             \<and> field user' ''password_hash'' = field reqBody ''newPassword''
             \<and> field user' ''is_new'' = JBool False))"
proof -
  have A: "sessions (snd (reset_password_handler e reqBody userId st)) = sessions st" for userId
    by (rule reset_handler_sessions)
  have B: "\<not> truthy (field reqBody ''newPassword'') \<longrightarrow>
        reset_password_handler e reqBody userId st
          = (json_error 400 ''newPassword is required.'', st)"
    by (simp add: reset_password_handler_def)
  have C1: "status (fst (reset_password_handler e reqBody uid st)) = 200"
    if "truthy (field reqBody ''newPassword'')" "\<not> fails e UserUpdate" "get_doc (users st) uid \<noteq> None"
    for uid
    using that by (auto simp: reset_password_handler_def Let_def)
  have C2: "\<exists>user'. get_doc (users (snd (reset_password_handler e reqBody uid st))) uid = Some user'
             \<and> field user' ''password_hash'' = field reqBody ''newPassword''
             \<and> field user' ''is_new'' = JBool False"
    if "status (fst (reset_password_handler e reqBody uid st)) = 200" for uid
    using reset_handler_200 [OF that] by blast
  have C3: "\<forall>other. other \<noteq> uid \<longrightarrow>
            get_doc (users (snd (reset_password_handler e reqBody uid st))) other
              = get_doc (users st) other" for uid
    by (auto simp: reset_password_handler_def Let_def get_doc_update_doc)
  have C: "truthy (field reqBody ''newPassword'') \<and> \<not> fails e UserUpdate
        \<and> get_doc (users st) userId \<noteq> None \<longrightarrow>
      status (fst (reset_password_handler e reqBody userId st)) = 200
      \<and> (\<exists>user'. get_doc (users (snd (reset_password_handler e reqBody userId st))) userId = Some user'
             \<and> field user' ''password_hash'' = field reqBody ''newPassword''
             \<and> field user' ''is_new'' = JBool False)
      \<and> (\<forall>other. other \<noteq> userId \<longrightarrow>
            get_doc (users (snd (reset_password_handler e reqBody userId st))) other
              = get_doc (users st) other)"
    using C1 [of userId] C2 [of userId] C3 [of userId] by blast
  have D: "reset_password e h reqBody st = reset_password_handler e reqBody uid st
        \<and> get_doc (users st) uid = Some user
        \<and> (truthy (field reqBody ''newPassword'') \<and> \<not> fails e UserUpdate \<longrightarrow>
             status (fst (reset_password e h reqBody st)) = 200
             \<and> sessions (snd (reset_password e h reqBody st)) = sessions st
             \<and> (\<exists>user'. get_doc (users (snd (reset_password e h reqBody st))) uid = Some user'
                    \<and> field user' ''password_hash'' = field reqBody ''newPassword''
                    \<and> field user' ''is_new'' = JBool False))"
    if n: "authenticateToken e h st = (Next user uid, st1)" for user uid st1
  proof -
    from guard_next [OF n] have st1: "st1 = st" and u: "get_doc (users st) uid = Some user"
      by simp_all
    have eq: "reset_password e h reqBody st = reset_password_handler e reqBody uid st"
      using n st1 by (simp add: reset_password_def)
    show ?thesis
      unfolding eq using u A [of uid] C1 [of uid] C2 [of uid] by auto
  qed
  have E: "sessions (snd (reset_password e h reqBody st)) = sessions st
        \<and> truthy (field reqBody ''newPassword'')
        \<and> (\<exists>user uid user'. authenticateToken e h st = (Next user uid, st)
             \<and> get_doc (users (snd (reset_password e h reqBody st))) uid = Some user'
             \<and> field user' ''password_hash'' = field reqBody ''newPassword''
             \<and> field user' ''is_new'' = JBool False)"
    if s: "status (fst (reset_password e h reqBody st)) = 200"
  proof -
    from guard_outcomes [of e h st] s
    obtain user uid where n: "authenticateToken e h st = (Next user uid, st)"
      by (auto simp: reset_password_def)
    then have eq: "reset_password e h reqBody st = reset_password_handler e reqBody uid st"
      by (simp add: reset_password_def)
    from s reset_handler_200 [of e reqBody uid st] n A [of uid]
    show ?thesis unfolding eq by auto
  qed
  show ?thesis using A [of userId] B C D E by blast
qed

theorem reset_password_frame_witness:
  "reset_password demo_env (Some ''Bearer tok1'') [(''newPassword'', JStr ''fresh'')] demo_store
     = (\<lparr>status = 200,
         body = [(''message'', JStr ''Password successfully updated for the authenticated user.''),
                 (''userId'', JStr ''u1'')]\<rparr>,
        demo_store\<lparr>users :=
          [(''u1'', [(''email'', JStr ''a@b.c''), (''password_hash'', JStr ''fresh''),
                    (''is_new'', JBool False), (''updatedAt'', JTimestamp 1001)])]\<rparr>)"
  using reset_password_frame [of demo_env "[(''newPassword'', JStr ''fresh'')]" "''u1''" demo_store
      "Some ''Bearer tok1''"]
  by (simp add: reset_password_def reset_password_handler_def authenticateToken_def
      auth_load_user_def doc_id_def bearer_token_def demo_env_def demo_store_def demo_user_def
      get_doc_def field_def update_doc_def merge_fields_def)


section \<open>Properties of the session store\<close>

lemma in_docs_of: "(k, d) \<in> set (docs_of c) \<longleftrightarrow> get_doc c k = Some d"
proof -
  have "(map_of (AList.clearjunk c) k = Some d) = ((k, d) \<in> set (AList.clearjunk c))"
    by (rule map_of_eq_Some_iff) (rule distinct_clearjunk)
  then show ?thesis by (simp add: docs_of_def get_doc_def map_of_clearjunk)
qed

lemma distinct_docs_of: "distinct (map fst (docs_of c))"
  by (simp add: docs_of_def)

lemma active_sessions_of_alt:
  "active_sessions_of c userId = filter (\<lambda>(t, d). active_for userId d) (docs_of c)"
  by (simp add: active_sessions_of_def active_for_def)

lemma in_active_tokens:
  "t \<in> set (active_tokens st userId) \<longleftrightarrow> (\<exists>d. get_doc (sessions st) t = Some d \<and> active_for userId d)"
proof -
  have "t \<in> set (active_tokens st userId)
      \<longleftrightarrow> (\<exists>d. (t, d) \<in> set (docs_of (sessions st)) \<and> active_for userId d)"
    by (force simp: active_tokens_def active_sessions_of_alt)
  then show ?thesis by (simp add: in_docs_of)
qed

lemma distinct_active_tokens: "distinct (active_tokens st userId)"
  by (simp add: active_tokens_def active_sessions_of_def distinct_map_filter distinct_docs_of)

lemma length_le1_distinct:
  "distinct xs \<Longrightarrow> (length xs \<le> 1) = (\<forall>x\<in>set xs. \<forall>y\<in>set xs. x = y)"
proof (cases xs)
  case Nil
  then show ?thesis by simp
next
  case (Cons a ys)
  assume d: "distinct xs"
  show ?thesis
  proof (cases ys)
    case Nil
    with Cons show ?thesis by simp
  next
    case (Cons b zs)
    with \<open>xs = a # ys\<close> d have "a \<noteq> b" "a \<in> set xs" "b \<in> set xs" by auto
    then have "\<not> (\<forall>x\<in>set xs. \<forall>y\<in>set xs. x = y)" by blast
    moreover have "\<not> length xs \<le> 1" using Cons \<open>xs = a # ys\<close> by simp
    ultimately show ?thesis by blast
  qed
qed

lemma single_active_iff:
  "single_active st \<longleftrightarrow>
     (\<forall>userId t t' d d'. get_doc (sessions st) t = Some d \<and> active_for userId d
        \<and> get_doc (sessions st) t' = Some d' \<and> active_for userId d' \<longrightarrow> t = t')"
proof -
  have "single_active st \<longleftrightarrow>
      (\<forall>userId t t'. t \<in> set (active_tokens st userId) \<and> t' \<in> set (active_tokens st userId)
         \<longrightarrow> t = t')"
    unfolding single_active_def length_le1_distinct [OF distinct_active_tokens] by blast
  then show ?thesis unfolding in_active_tokens by blast
qed

lemma get_doc_set_doc: "get_doc (set_doc k d c) t = (if t = k then Some d else get_doc c t)"
  by (simp add: get_doc_def set_doc_def update_conv')

lemma get_doc_batch_update:
  "distinct ids \<Longrightarrow>
   get_doc (batch_update ids fs c) t
     = (if t \<in> set ids then map_option (merge_fields fs) (get_doc c t) else get_doc c t)"
proof (induction ids arbitrary: c)
  case Nil
  then show ?case by (simp add: batch_update_def)
next
  case (Cons a ids)
  have "batch_update (a # ids) fs c = batch_update ids fs (update_doc a fs c)"
    by (simp add: batch_update_def)
  with Cons show ?case by (auto simp: get_doc_update_doc)
qed

lemma logged_out_fields:
  "field (merge_fields (logged_out e) d) k
     = (if k = ''isActive'' then JBool False
        else if k = ''logoutTime'' then JTimestamp (server_ms e) else field d k)"
  by (simp add: merge_fields_def logged_out_def)

lemma not_active_logged_out [simp]: "\<not> active_for u (merge_fields (logged_out e) d)"
  by (simp add: active_for_def logged_out_fields)

lemma not_active_expired [simp]: "\<not> active_for u (merge_fields [(''isActive'', JBool False)] d)"
  by (simp add: active_for_def merge_fields_def)

lemma active_new_session [simp]: "active_for u (new_session e userId) \<longleftrightarrow> u = userId"
  by (auto simp: active_for_def new_session_def field_def)

text \<open>What \<open>cleanupPreviousSessions\<close> leaves: the same documents, the active ones of the user logged out.\<close>

lemma cleanup_get_doc:
  assumes "cleanupPreviousSessions e userId st = Some st1"
  shows "users st1 = users st"
    and "get_doc (sessions st1) t
       = (if t \<in> set (active_tokens st userId)
          then map_option (merge_fields (logged_out e)) (get_doc (sessions st) t)
          else get_doc (sessions st) t)"
proof -
  show "users st1 = users st"
    using assms by (auto simp: cleanupPreviousSessions_def Let_def split: if_splits)
  show "get_doc (sessions st1) t
       = (if t \<in> set (active_tokens st userId)
          then map_option (merge_fields (logged_out e)) (get_doc (sessions st) t)
          else get_doc (sessions st) t)"
  proof (cases "active_sessions_of (sessions st) userId = []")
    case True
    with assms have "st1 = st" by (auto simp: cleanupPreviousSessions_def Let_def split: if_splits)
    with True show ?thesis by (simp add: active_tokens_def)
  next
    case False
    with assms have "sessions st1 = batch_update (active_tokens st userId) (logged_out e) (sessions st)"
      by (auto simp: cleanupPreviousSessions_def Let_def active_tokens_def split: if_splits)
    then show ?thesis by (simp add: get_doc_batch_update distinct_active_tokens)
  qed
qed

lemma cleanup_no_active:
  assumes "cleanupPreviousSessions e userId st = Some st1"
  shows "active_tokens st1 userId = []"
proof -
  have "\<not> (\<exists>d. get_doc (sessions st1) t = Some d \<and> active_for userId d)" for t
    using in_active_tokens [of t st userId]
    by (auto simp: cleanup_get_doc(2) [OF assms])
  then have "t \<notin> set (active_tokens st1 userId)" for t
    by (simp add: in_active_tokens)
  then show ?thesis by (cases "active_tokens st1 userId") auto
qed

lemma cleanup_single_active:
  assumes "cleanupPreviousSessions e userId st = Some st1" and "single_active st"
  shows "single_active st1"
proof -
  have sub: "\<exists>d0. get_doc (sessions st) t = Some d0 \<and> active_for u d0"
    if "get_doc (sessions st1) t = Some d" "active_for u d" for t d u
    using that by (auto simp: cleanup_get_doc(2) [OF assms(1)] split: if_splits)
  show ?thesis
    unfolding single_active_iff
  proof (intro allI impI)
    fix u t t' d d'
    assume a: "get_doc (sessions st1) t = Some d \<and> active_for u d
        \<and> get_doc (sessions st1) t' = Some d' \<and> active_for u d'"
    then obtain d0 d0' where "get_doc (sessions st) t = Some d0" "active_for u d0"
      "get_doc (sessions st) t' = Some d0'" "active_for u d0'"
      using sub [of t d u] sub [of t' d' u] by blast
    with assms(2) show "t = t'" unfolding single_active_iff by blast
  qed
qed


lemma single_active_antimono:
  assumes "single_active st"
    and "\<And>u t d. get_doc (sessions st1) t = Some d \<Longrightarrow> active_for u d
           \<Longrightarrow> \<exists>d0. get_doc (sessions st) t = Some d0 \<and> active_for u d0"
  shows "single_active st1"
  unfolding single_active_iff
proof (intro allI impI)
  fix u t t' d d'
  assume a: "get_doc (sessions st1) t = Some d \<and> active_for u d
      \<and> get_doc (sessions st1) t' = Some d' \<and> active_for u d'"
  then obtain d0 d0' where "get_doc (sessions st) t = Some d0" "active_for u d0"
    "get_doc (sessions st) t' = Some d0'" "active_for u d0'"
    using assms(2) [of t d u] assms(2) [of t' d' u] by blast
  with assms(1) show "t = t'" unfolding single_active_iff by blast
qed

lemma distinct_singleton: "distinct xs \<Longrightarrow> set xs = {a} \<Longrightarrow> xs = [a]"
  by (cases xs; cases "tl xs") auto

text \<open>The store after the \<open>set\<close> of the new session on top of a cleaned-up store.\<close>

lemma new_session_unique:
  assumes "cleanupPreviousSessions e userId st = Some st1"
  shows "active_tokens (st1\<lparr>sessions := set_doc (uuid e) (new_session e userId) (sessions st1)\<rparr>) userId
           = [uuid e]"
proof -
  let ?st2 = "st1\<lparr>sessions := set_doc (uuid e) (new_session e userId) (sessions st1)\<rparr>"
  have none: "t \<notin> set (active_tokens st1 userId)" for t
    using cleanup_no_active [OF assms] by simp
  have "t \<in> set (active_tokens ?st2 userId) \<longleftrightarrow> t = uuid e" for t
    using none [of t] by (auto simp: in_active_tokens get_doc_set_doc)
  then have "set (active_tokens ?st2 userId) = {uuid e}" by blast
  then show ?thesis by (rule distinct_singleton [OF distinct_active_tokens])
qed

lemma new_session_single_active:
  assumes "single_active st1" and "active_tokens st1 userId = []"
  shows "single_active (st1\<lparr>sessions := set_doc k (new_session e userId) (sessions st1)\<rparr>)"
  unfolding single_active_iff
proof (intro allI impI)
  fix u t t' d d'
  let ?S = "sessions (st1\<lparr>sessions := set_doc k (new_session e userId) (sessions st1)\<rparr>)"
  assume a: "get_doc ?S t = Some d \<and> active_for u d \<and> get_doc ?S t' = Some d' \<and> active_for u d'"
  have none: "\<not> (get_doc (sessions st1) x = Some y \<and> active_for userId y)" for x y
    using assms(2) in_active_tokens [of x st1 userId] by auto
  show "t = t'"
  proof (cases "u = userId")
    case True
    with a none have "t = k" "t' = k"
      by (auto simp: get_doc_set_doc split: if_splits)
    then show ?thesis by simp
  next
    case False
    with a have "get_doc (sessions st1) t = Some d" "get_doc (sessions st1) t' = Some d'"
      by (auto simp: get_doc_set_doc split: if_splits)
    with a assms(1) show ?thesis unfolding single_active_iff by blast
  qed
qed

text \<open>The ways a login can end.\<close>

lemma login_cases:
  "login e reqBody st = (r, st2) \<Longrightarrow>
   (st2 = st \<and> status r \<noteq> 200)
   \<or> (\<exists>userId user others st1.
        users_with_email (users st) (field reqBody ''email'') = (userId, user) # others
        \<and> strict_eq (field user ''password_hash'') (field reqBody ''password'')
        \<and> cleanupPreviousSessions e userId st = Some st1
        \<and> ((fails e SessionSet \<and> st2 = st1 \<and> r = login_internal_error)
           \<or> (\<not> fails e SessionSet \<and> r = login_success e userId user
               \<and> st2 = st1\<lparr>sessions := set_doc (uuid e) (new_session e userId) (sessions st1)\<rparr>)))"
proof (cases "users_with_email (users st) (field reqBody ''email'')")
  case Nil
  assume "login e reqBody st = (r, st2)"
  with Nil show ?thesis
    by (auto simp: login_def Let_def login_internal_error_def invalid_credentials_def
        split: if_splits)
next
  case (Cons p others)
  obtain userId user where p: "p = (userId, user)" by (cases p)
  assume "login e reqBody st = (r, st2)"
  with Cons p show ?thesis
    by (auto simp: login_def Let_def login_internal_error_def invalid_credentials_def
        split: if_splits option.splits)
qed

lemma status_login_success [simp]: "status (login_success e userId user) = 200"
  by (simp add: login_success_def)

lemma status_login_internal_error [simp]: "status login_internal_error = 500"
  by (simp add: login_internal_error_def)

lemma login_single_active:
  assumes "single_active st"
  shows "single_active (snd (login e reqBody st))"
proof -
  obtain r st2 where l: "login e reqBody st = (r, st2)" by (cases "login e reqBody st")
  from login_cases [OF l] show ?thesis
  proof (elim disjE exE conjE)
    assume "st2 = st"
    with l assms show ?thesis by simp
  next
    fix userId user others st1
    assume c: "cleanupPreviousSessions e userId st = Some st1" and "st2 = st1"
    with l cleanup_single_active [OF c assms] show ?thesis by simp
  next
    fix userId user others st1
    assume c: "cleanupPreviousSessions e userId st = Some st1"
      and s: "st2 = st1\<lparr>sessions := set_doc (uuid e) (new_session e userId) (sessions st1)\<rparr>"
    from new_session_single_active [OF cleanup_single_active [OF c assms] cleanup_no_active [OF c]]
    show ?thesis using l s by simp
  qed
qed

lemma guard_single_active:
  assumes "single_active st"
  shows "single_active (snd (authenticateToken e h st))"
proof -
  have "snd (authenticateToken e h st) = st
      \<or> (\<exists>token. snd (authenticateToken e h st)
            = st\<lparr>sessions := update_doc token [(''isActive'', JBool False)] (sessions st)\<rparr>)"
    by (auto simp: authenticateToken_def auth_load_user_def split: option.splits jsval.splits)
  then show ?thesis
  proof (elim disjE exE)
    assume "snd (authenticateToken e h st) = st"
    with assms show ?thesis by simp
  next
    fix token
    assume s: "snd (authenticateToken e h st)
            = st\<lparr>sessions := update_doc token [(''isActive'', JBool False)] (sessions st)\<rparr>"
    show ?thesis unfolding s
      by (rule single_active_antimono [OF assms])
        (auto simp: get_doc_update_doc split: if_splits)
  qed
qed

lemma logout_handler_single_active:
  assumes "single_active st"
  shows "single_active (snd (logout_handler e h st))"
proof -
  have "snd (logout_handler e h st) = st
      \<or> (\<exists>token. snd (logout_handler e h st)
            = st\<lparr>sessions := update_doc token (logged_out e) (sessions st)\<rparr>)"
    by (auto simp: logout_handler_def split: option.splits)
  then show ?thesis
  proof (elim disjE exE)
    assume "snd (logout_handler e h st) = st"
    with assms show ?thesis by simp
  next
    fix token
    assume s: "snd (logout_handler e h st)
            = st\<lparr>sessions := update_doc token (logged_out e) (sessions st)\<rparr>"
    show ?thesis unfolding s
      by (rule single_active_antimono [OF assms])
        (auto simp: get_doc_update_doc split: if_splits)
  qed
qed

lemma logout_single_active:
  assumes "single_active st"
  shows "single_active (snd (logout e h st))"
proof (cases "authenticateToken e h st")
  case (Pair g st1)
  have s1: "single_active st1" using guard_single_active [OF assms, of e h] Pair by simp
  show ?thesis
  proof (cases g)
    case (Rejected r)
    with Pair s1 show ?thesis by (simp add: logout_def)
  next
    case (Next user userId)
    with Pair logout_handler_single_active [OF s1, of e h] show ?thesis by (simp add: logout_def)
  qed
qed

lemma single_active_sessions_cong: "sessions st1 = sessions st \<Longrightarrow> single_active st1 = single_active st"
  by (simp add: single_active_def active_tokens_def)

lemma reset_single_active:
  assumes "single_active st"
  shows "single_active (snd (reset_password e h reqBody st))"
proof (cases "authenticateToken e h st")
  case (Pair g st1)
  have s1: "single_active st1" using guard_single_active [OF assms, of e h] Pair by simp
  show ?thesis
  proof (cases g)
    case (Rejected r)
    with Pair s1 show ?thesis by (simp add: reset_password_def)
  next
    case (Next user userId)
    have "sessions (snd (reset_password_handler e reqBody userId st1)) = sessions st1"
      by (simp add: reset_password_handler_def Let_def)
    from single_active_sessions_cong [OF this] s1 Pair Next
    show ?thesis by (simp add: reset_password_def)
  qed
qed


lemmas demo_simps =
  login_def Let_def users_with_email_def docs_of_def demo_store_def demo_user_def demo_env_def
  demo_login_def demo_cleaned_def demo_logged_in_def
  field_def cleanupPreviousSessions_def active_sessions_of_def active_tokens_def login_success_def
  SESSION_DURATION_MS_def batch_update_def update_doc_def merge_fields_def logged_out_def
  set_doc_def new_session_def login_trace_def login_internal_error_def json_error_def

lemma demo_login_run: "login demo_env demo_login demo_store = (login_success demo_env ''u1'' demo_user, demo_logged_in)"
  by (simp add: demo_simps)

lemma demo_single_active: "single_active demo_store"
  by (simp add: single_active_def demo_simps)

text \<open>
  A login that runs alone: its answer, its effect on the store, and the invariant under
  every handler.
\<close>

lemma login_sequential:
  "(status (fst (login e reqBody st)) = 200 \<longrightarrow>
      (\<exists>userId user others.
         users_with_email (users st) (field reqBody ''email'') = (userId, user) # others
         \<and> active_tokens (snd (login e reqBody st)) userId = [uuid e]
         \<and> get_doc (sessions (snd (login e reqBody st))) (uuid e) = Some (new_session e userId)
         \<and> (\<forall>t\<in>set (active_tokens st userId). t \<noteq> uuid e \<longrightarrow>
               (\<exists>d. get_doc (sessions (snd (login e reqBody st))) t = Some d
                    \<and> field d ''isActive'' = JBool False))
         \<and> (\<forall>t. t \<noteq> uuid e \<and> t \<notin> set (active_tokens st userId) \<longrightarrow>
               get_doc (sessions (snd (login e reqBody st))) t = get_doc (sessions st) t)))
   \<and> (single_active st \<longrightarrow>
        single_active (snd (login e reqBody st))
        \<and> single_active (snd (logout e h st))
        \<and> single_active (snd (authenticateToken e h st))
        \<and> single_active (snd (reset_password e h reqBody st))
        \<and> single_active (snd (profile e h st)))"
proof (intro conjI impI)
  assume ok: "status (fst (login e reqBody st)) = 200"
  obtain r st2 where l: "login e reqBody st = (r, st2)" by (cases "login e reqBody st")
  with ok have r: "status r = 200" by simp
  from login_cases [OF l] r obtain userId user others st1 where
    u: "users_with_email (users st) (field reqBody ''email'') = (userId, user) # others"
    and c: "cleanupPreviousSessions e userId st = Some st1"
    and s: "st2 = st1\<lparr>sessions := set_doc (uuid e) (new_session e userId) (sessions st1)\<rparr>"
    by auto
  have g: "get_doc (sessions st2) t
      = (if t = uuid e then Some (new_session e userId)
         else if t \<in> set (active_tokens st userId)
         then map_option (merge_fields (logged_out e)) (get_doc (sessions st) t)
         else get_doc (sessions st) t)" for t
    by (simp add: s get_doc_set_doc cleanup_get_doc(2) [OF c])
  have 1: "active_tokens st2 userId = [uuid e]"
    unfolding s by (rule new_session_unique [OF c])
  have 2: "\<forall>t\<in>set (active_tokens st userId). t \<noteq> uuid e \<longrightarrow>
             (\<exists>d. get_doc (sessions st2) t = Some d \<and> field d ''isActive'' = JBool False)"
    by (auto simp: g in_active_tokens logged_out_fields)
  show "\<exists>userId user others.
         users_with_email (users st) (field reqBody ''email'') = (userId, user) # others
         \<and> active_tokens (snd (login e reqBody st)) userId = [uuid e]
         \<and> get_doc (sessions (snd (login e reqBody st))) (uuid e) = Some (new_session e userId)
         \<and> (\<forall>t\<in>set (active_tokens st userId). t \<noteq> uuid e \<longrightarrow>
               (\<exists>d. get_doc (sessions (snd (login e reqBody st))) t = Some d
                    \<and> field d ''isActive'' = JBool False))
         \<and> (\<forall>t. t \<noteq> uuid e \<and> t \<notin> set (active_tokens st userId) \<longrightarrow>
               get_doc (sessions (snd (login e reqBody st))) t = get_doc (sessions st) t)"
    using u 1 2 g unfolding l by (intro exI [of _ userId] exI [of _ user] exI [of _ others]) simp
next
  assume "single_active st"
  then show "single_active (snd (login e reqBody st))" by (rule login_single_active)
next
  assume "single_active st"
  then show "single_active (snd (logout e h st))" by (rule logout_single_active)
next
  assume "single_active st"
  then show "single_active (snd (authenticateToken e h st))" by (rule guard_single_active)
next
  assume "single_active st"
  then show "single_active (snd (reset_password e h reqBody st))" by (rule reset_single_active)
next
  assume a: "single_active st"
  have "snd (profile e h st) = snd (authenticateToken e h st)"
    by (simp add: profile_def split: prod.splits guard_result.splits)
  with guard_single_active [OF a, of e h] show "single_active (snd (profile e h st))" by simp
qed


lemma login_steps_login:
  "login_steps 4 e (LStart reqBody, st) = (LDone (fst (login e reqBody st)), snd (login e reqBody st))"
proof -
  have 4: "(4::nat) = Suc (Suc (Suc (Suc 0)))" by simp
  show ?thesis
    unfolding 4
    by (auto simp: login_def Let_def cleanupPreviousSessions_def
        split: list.splits option.splits if_splits)
qed



lemma login_steps_done: "login_steps n e (LDone r, st) = (LDone r, st)"
  by (induction n) simp_all

lemma login_steps_add: "login_steps (m + n) e cfg = login_steps n e (login_steps m e cfg)"
  by (induction m arbitrary: cfg) simp_all

text \<open>Writes that activate no session.\<close>

lemma harmless_iff:
  "harmless u st st1 \<longleftrightarrow>
     (\<forall>t d1. get_doc (sessions st1) t = Some d1 \<and> active_for u d1 \<longrightarrow>
        (\<exists>d. get_doc (sessions st) t = Some d \<and> active_for u d))"
  unfolding harmless_def subset_iff in_active_tokens by blast

lemma harmless_refl: "harmless u st st"
  by (simp add: harmless_def)

lemma harmless_trans: "harmless u a b \<Longrightarrow> harmless u b c \<Longrightarrow> harmless u a c"
  unfolding harmless_def by blast

lemma harmless_subset:
  "harmless u st st1 \<Longrightarrow> set (active_tokens st1 u) \<subseteq> set (active_tokens st u)"
  by (simp add: harmless_def)

lemma length_active_mono:
  assumes "set (active_tokens st1 u) \<subseteq> set (active_tokens st u)"
  shows "length (active_tokens st1 u) \<le> length (active_tokens st u)"
proof -
  have "card (set (active_tokens st1 u)) \<le> card (set (active_tokens st u))"
    using assms by (simp add: card_mono)
  then show ?thesis
    by (simp add: distinct_card distinct_active_tokens)
qed

lemma batch_logout_active:
  "get_doc (batch_update tokens (logged_out e) c) t = Some d \<Longrightarrow> active_for u d \<Longrightarrow>
   t \<notin> set tokens \<and> get_doc c t = Some d"
proof (induction tokens arbitrary: c)
  case Nil
  then show ?case by (simp add: batch_update_def)
next
  case (Cons a tokens)
  have b: "batch_update (a # tokens) (logged_out e) c
      = batch_update tokens (logged_out e) (update_doc a (logged_out e) c)"
    by (simp add: batch_update_def)
  from Cons.IH [of "update_doc a (logged_out e) c"] Cons.prems
  have 1: "t \<notin> set tokens" and 2: "get_doc (update_doc a (logged_out e) c) t = Some d"
    by (simp_all add: b)
  from 2 Cons.prems(2) have "t \<noteq> a"
    by (auto simp: get_doc_update_doc)
  with 1 2 show ?case by (simp add: get_doc_update_doc)
qed

lemma harmless_commit:
  "harmless u st (st\<lparr>sessions := batch_update tokens (logged_out e) (sessions st)\<rparr>)"
  by (auto simp: harmless_iff dest: batch_logout_active)

lemma harmless_update_inactive:
  "(\<And>d. \<not> active_for u (merge_fields fs d)) \<Longrightarrow>
   harmless u st (st\<lparr>sessions := update_doc token fs (sessions st)\<rparr>)"
  by (auto simp: harmless_iff get_doc_update_doc split: if_splits)

lemma harmless_expire:
  "harmless u st (st\<lparr>sessions := update_doc token [(''isActive'', JBool False)] (sessions st)\<rparr>)"
  by (rule harmless_update_inactive) simp

lemma harmless_logged_out:
  "harmless u st (st\<lparr>sessions := update_doc token (logged_out e) (sessions st)\<rparr>)"
  by (rule harmless_update_inactive) simp

lemma harmless_users: "harmless u st (st\<lparr>users := c\<rparr>)"
  by (simp add: harmless_iff)

lemma harmless_set_other:
  "u1 \<noteq> u \<Longrightarrow>
   harmless u st (st\<lparr>sessions := set_doc k (new_session e u1) (sessions st)\<rparr>)"
  by (auto simp: harmless_iff get_doc_set_doc split: if_splits)

text \<open>Every step of a login but the write of a new session for the same user is harmless.\<close>

lemma harmless_login_step:
  "(\<forall>user. p \<noteq> LSet u user) \<Longrightarrow> harmless u st (snd (login_step e p st))"
proof (cases p)
  case (LStart b)
  then show ?thesis by (simp add: Let_def harmless_refl split: list.splits)
next
  case (LQuery u1 user)
  then show ?thesis by (simp add: Let_def harmless_refl)
next
  case (LCommit u1 user tokens)
  then show ?thesis by (simp add: harmless_refl harmless_commit)
next
  case (LSet u1 user)
  assume "\<forall>user. p \<noteq> LSet u user"
  with LSet have "u1 \<noteq> u" by auto
  with LSet show ?thesis by (simp add: harmless_refl harmless_set_other)
next
  case (LDone r)
  then show ?thesis by (simp add: harmless_refl)
qed

lemma harmless_guard: "harmless u st (snd (authenticateToken e h st))"
proof -
  have "snd (authenticateToken e h st) = st
      \<or> (\<exists>token. snd (authenticateToken e h st)
            = st\<lparr>sessions := update_doc token [(''isActive'', JBool False)] (sessions st)\<rparr>)"
    by (auto simp: authenticateToken_def auth_load_user_def split: option.splits jsval.splits)
  then show ?thesis
    by (auto simp: harmless_refl harmless_expire)
qed

lemma harmless_logout_handler: "harmless u st (snd (logout_handler e h st))"
proof -
  have "snd (logout_handler e h st) = st
      \<or> (\<exists>token. snd (logout_handler e h st)
            = st\<lparr>sessions := update_doc token (logged_out e) (sessions st)\<rparr>)"
    by (auto simp: logout_handler_def split: option.splits)
  then show ?thesis
    by (auto simp: harmless_refl harmless_logged_out)
qed

lemma harmless_reset_handler: "harmless u st (snd (reset_password_handler e b uid st))"
  by (simp add: harmless_iff reset_handler_sessions)

lemma harmless_logout: "harmless u st (snd (logout e h st))"
proof (cases "authenticateToken e h st")
  case (Pair g st1)
  then have g: "harmless u st st1" using harmless_guard [of u st e h] by simp
  show ?thesis
  proof (cases g)
    case (Rejected r)
    with Pair g show ?thesis by (simp add: logout_def)
  next
    case (Next user userId)
    with Pair harmless_trans [OF g harmless_logout_handler [of u st1 e h]]
    show ?thesis by (simp add: logout_def)
  qed
qed

lemma harmless_reset: "harmless u st (snd (reset_password e h b st))"
proof (cases "authenticateToken e h st")
  case (Pair g st1)
  then have g: "harmless u st st1" using harmless_guard [of u st e h] by simp
  show ?thesis
  proof (cases g)
    case (Rejected r)
    with Pair g show ?thesis by (simp add: reset_password_def)
  next
    case (Next user userId)
    with Pair harmless_trans [OF g harmless_reset_handler [of u st1 e b userId]]
    show ?thesis by (simp add: reset_password_def)
  qed
qed

lemma harmless_profile: "harmless u st (snd (profile e h st))"
proof -
  have "snd (profile e h st) = snd (authenticateToken e h st)"
    by (simp add: profile_def split: prod.splits guard_result.splits)
  then show ?thesis by (simp add: harmless_guard)
qed

text \<open>A login and the window between its query and its write.\<close>

lemma window_ok_out: "\<not> in_window u p \<Longrightarrow> window_ok u p st"
  by (cases p) (simp_all add: window_ok_def)

lemma window_ok_move:
  assumes "window_ok u p st" and "harmless u st st1"
  shows "window_ok u p st1"
proof -
  from harmless_subset [OF assms(2)]
  have s: "set (active_tokens st1 u) \<subseteq> set (active_tokens st u)" .
  have e: "active_tokens st u = [] \<Longrightarrow> active_tokens st1 u = []"
    using s by simp
  from assms(1) s e show ?thesis
    by (cases p) (auto simp: window_ok_def)
qed

lemma active_after_set:
  "set (active_tokens (st\<lparr>sessions := set_doc (uuid e) (new_session e u1) (sessions st)\<rparr>) u)
     \<subseteq> (if u1 = u then {uuid e} else {}) \<union> set (active_tokens st u)"
  by (auto simp: in_active_tokens get_doc_set_doc split: if_splits)

lemma active_after_own_set:
  assumes "active_tokens st u = []"
  shows "active_tokens (st\<lparr>sessions := set_doc (uuid e) (new_session e u) (sessions st)\<rparr>) u
     = [uuid e]"
proof -
  let ?st1 = "st\<lparr>sessions := set_doc (uuid e) (new_session e u) (sessions st)\<rparr>"
  have "set (active_tokens ?st1 u) \<subseteq> {uuid e}"
    using active_after_set [where st = st and e = e and ?u1.0 = u and u = u] assms by simp
  moreover have "uuid e \<in> set (active_tokens ?st1 u)"
    by (simp add: in_active_tokens get_doc_set_doc)
  ultimately have "set (active_tokens ?st1 u) = {uuid e}" by blast
  with distinct_active_tokens [of ?st1 u] show ?thesis
    by (simp add: distinct_singleton)
qed

lemma window_step:
  "in_window u (fst (login_step e p st)) \<Longrightarrow> in_window u p \<or> (\<exists>user. p = LQuery u user)"
  by (cases p) (auto simp: Let_def split: list.splits if_splits)

lemma login_step_safe:
  assumes "length (active_tokens st u) \<le> 1" and "window_ok u p st"
  shows "length (active_tokens (snd (login_step e p st)) u) \<le> 1
         \<and> window_ok u (fst (login_step e p st)) (snd (login_step e p st))"
proof (cases p)
  case (LStart b)
  with assms show ?thesis
    by (auto simp: window_ok_def Let_def split: list.splits)
next
  case (LQuery u1 user)
  with assms show ?thesis
    by (auto simp: window_ok_def Let_def active_tokens_def)
next
  case (LCommit u1 user tokens)
  let ?st1 = "st\<lparr>sessions := batch_update tokens (logged_out e) (sessions st)\<rparr>"
  have h: "harmless u st ?st1" by (rule harmless_commit)
  from length_active_mono [OF harmless_subset [OF h]] assms
  have l: "length (active_tokens ?st1 u) \<le> 1" by simp
  have n: "active_tokens ?st1 u = []" if "u1 = u"
  proof -
    have "t \<notin> set (active_tokens ?st1 u)" for t
    proof
      assume "t \<in> set (active_tokens ?st1 u)"
      then obtain d where d: "get_doc (batch_update tokens (logged_out e) (sessions st)) t = Some d"
        "active_for u d" by (auto simp: in_active_tokens)
      from batch_logout_active [OF d] have "t \<notin> set tokens" "t \<in> set (active_tokens st u)"
        using d(2) by (auto simp: in_active_tokens)
      with assms LCommit that show False by (auto simp: window_ok_def)
    qed
    then show ?thesis by (cases "active_tokens ?st1 u") auto
  qed
  from assms LCommit l n show ?thesis
    by (auto simp: window_ok_def)
next
  case (LSet u1 user)
  let ?st1 = "st\<lparr>sessions := set_doc (uuid e) (new_session e u1) (sessions st)\<rparr>"
  show ?thesis
  proof (cases "fails e SessionSet")
    case True
    with assms LSet show ?thesis by (auto simp: window_ok_def)
  next
    case False
    have sub: "set (active_tokens ?st1 u) \<subseteq> (if u1 = u then {uuid e} else {}) \<union> set (active_tokens st u)"
      by (rule active_after_set)
    have l: "length (active_tokens ?st1 u) \<le> 1"
    proof (cases "u1 = u")
      case True
      with assms LSet have "active_tokens st u = []" by (simp add: window_ok_def)
      with True show ?thesis by (simp add: active_after_own_set)
    next
      case False
      with sub have "set (active_tokens ?st1 u) \<subseteq> set (active_tokens st u)" by simp
      from length_active_mono [OF this] assms show ?thesis by simp
    qed
    from False LSet l show ?thesis
      by (auto simp: window_ok_def)
  qed
next
  case (LDone r)
  with assms show ?thesis by simp
qed

text \<open>An admitted schedule keeps \<open>pool_inv\<close>.\<close>

lemma length_act [simp]: "length (fst (act a cfg)) = length (fst cfg)"
  by (cases a; cases cfg) (simp_all split: prod.splits)

lemma length_run [simp]: "length (fst (run sched cfg)) = length (fst cfg)"
  by (induction sched arbitrary: cfg) simp_all

lemma run_append: "run (a @ b) cfg = run b (run a cfg)"
  by (induction a arbitrary: cfg) simp_all

lemma sched_ok_append:
  "sched_ok u (a @ b) cfg \<longleftrightarrow> sched_ok u a cfg \<and> sched_ok u b (run a cfg)"
  by (induction a arbitrary: cfg) auto

lemma pool_inv_write:
  assumes "pool_inv u (ps, st)" and "harmless u st st1"
  shows "pool_inv u (ps, st1)"
proof -
  from length_active_mono [OF harmless_subset [OF assms(2)]] assms(1)
  have "length (active_tokens st1 u) \<le> 1" by (simp add: pool_inv_def)
  with assms show ?thesis
    by (auto simp: pool_inv_def intro: window_ok_move)
qed

lemma pool_inv_step:
  assumes inv: "pool_inv u (ps, st)" and i: "i < length ps"
    and ok: "allowed u (LoginStep i) (ps, st)"
  shows "pool_inv u (act (LoginStep i) (ps, st))"
proof -
  obtain e p where pi: "ps ! i = (e, p)" by (cases "ps ! i")
  obtain p1 st1 where step: "login_step e p st = (p1, st1)" by (cases "login_step e p st")
  have a: "act (LoginStep i) (ps, st) = (ps[i := (e, p1)], st1)"
    using i pi step by simp
  from inv have le: "length (active_tokens st u) \<le> 1"
    and uniq: "\<And>j k. j < length ps \<Longrightarrow> k < length ps \<Longrightarrow> in_window u (snd (ps ! j)) \<Longrightarrow>
                 in_window u (snd (ps ! k)) \<Longrightarrow> j = k"
    and wok: "\<And>j. j < length ps \<Longrightarrow> window_ok u (snd (ps ! j)) st"
    by (auto simp: pool_inv_def)
  from wok [OF i] pi have wi: "window_ok u p st" by simp
  from login_step_safe [OF le wi, of e] step
  have le1: "length (active_tokens st1 u) \<le> 1" and wi1: "window_ok u p1 st1" by simp_all
  have others: "window_ok u (snd (ps ! j)) st1" if j: "j < length ps" and ne: "j \<noteq> i" for j
  proof (cases "\<exists>user. p = LSet u user")
    case True
    then have "in_window u (snd (ps ! i))" using pi by auto
    with uniq [OF j i] ne have "\<not> in_window u (snd (ps ! j))" by blast
    then show ?thesis by (rule window_ok_out)
  next
    case False
    then have "harmless u st (snd (login_step e p st))"
      by (intro harmless_login_step) simp
    with step have "harmless u st st1" by simp
    from window_ok_move [OF wok [OF j] this] show ?thesis .
  qed
  have enter: "\<not> in_window u (snd (ps ! k))"
    if k: "k < length ps" and ne: "k \<noteq> i" and w: "in_window u p1" for k
  proof -
    from window_step [of u e p st] step w
    have "in_window u p \<or> (\<exists>user. p = LQuery u user)" by simp
    then show ?thesis
    proof
      assume "in_window u p"
      then have "in_window u (snd (ps ! i))" using pi by simp
      with uniq [OF k i] ne show ?thesis by blast
    next
      assume "\<exists>user. p = LQuery u user"
      then obtain user where "p = LQuery u user" ..
      with ok i pi have "list_all (\<lambda>p. \<not> in_window u (snd p)) ps" by simp
      with k show ?thesis by (simp add: list_all_length)
    qed
  qed
  have nth: "snd (ps[i := (e, p1)] ! j) = (if j = i then p1 else snd (ps ! j))"
    if "j < length ps" for j
    using that by (simp add: nth_list_update)
  have u1: "j = k"
    if j: "j < length ps" and k: "k < length ps"
      and wj: "in_window u (snd (ps[i := (e, p1)] ! j))"
      and wk: "in_window u (snd (ps[i := (e, p1)] ! k))" for j k
  proof (cases "j = i")
    case True
    show ?thesis
    proof (cases "k = i")
      case True
      with \<open>j = i\<close> show ?thesis by simp
    next
      case False
      from wj True j have "in_window u p1" by (simp add: nth)
      from enter [OF k False this] wk False k show ?thesis by (simp add: nth)
    qed
  next
    case False
    show ?thesis
    proof (cases "k = i")
      case True
      from wk True k have "in_window u p1" by (simp add: nth)
      from enter [OF j False this] wj False j show ?thesis by (simp add: nth)
    next
      case kf: False
      from wj wk False kf j k uniq [OF j k] show ?thesis by (simp add: nth)
    qed
  qed
  have w1: "window_ok u (snd (ps[i := (e, p1)] ! j)) st1" if j: "j < length ps" for j
    using others [OF j] wi1 j by (simp add: nth)
  show ?thesis
    unfolding a pool_inv_def using le1 u1 w1 by simp
qed

lemma pool_inv_act:
  assumes "pool_inv u cfg" and "allowed u a cfg"
  shows "pool_inv u (act a cfg)"
proof (cases cfg)
  case (Pair ps st)
  show ?thesis
  proof (cases a)
    case (LoginStep i)
    show ?thesis
    proof (cases "i < length ps")
      case True
      from pool_inv_step [OF _ True] assms Pair LoginStep show ?thesis by simp
    next
      case False
      with assms Pair LoginStep show ?thesis by simp
    qed
  next
    case (Write f)
    with assms Pair pool_inv_write [of u ps st "f st"] show ?thesis by simp
  qed
qed

lemma pool_inv_run:
  "pool_inv u cfg \<Longrightarrow> sched_ok u sched cfg \<Longrightarrow> pool_inv u (run sched cfg)"
proof (induction sched arbitrary: cfg)
  case Nil
  then show ?case by simp
next
  case (Cons a sched)
  from Cons.prems have "pool_inv u (act a cfg)" by (simp add: pool_inv_act)
  with Cons.IH [of "act a cfg"] Cons.prems show ?case by simp
qed

lemma pool_inv_start:
  assumes "list_all (\<lambda>p. \<not> in_window u (snd p)) ps" and "length (active_tokens st u) \<le> 1"
  shows "pool_inv u (ps, st)"
proof -
  from assms(1) have n: "\<And>i. i < length ps \<Longrightarrow> \<not> in_window u (snd (ps ! i))"
    by (simp add: list_all_length)
  then show ?thesis
    using assms(2) by (auto simp: pool_inv_def intro: window_ok_out)
qed

text \<open>What the invariant gives for a login that is about to write its new session.\<close>

lemma pool_inv_set:
  assumes "pool_inv u (ps, st)" and "i < length ps" and "ps ! i = (e, LSet u user)"
  shows "active_tokens st u = []"
    and "\<not> fails e SessionSet \<Longrightarrow>
         act (LoginStep i) (ps, st)
           = (ps[i := (e, LDone (login_success e u user))],
              st\<lparr>sessions := set_doc (uuid e) (new_session e u) (sessions st)\<rparr>)"
    and "\<not> fails e SessionSet \<Longrightarrow>
         active_tokens (snd (act (LoginStep i) (ps, st))) u = [uuid e]"
proof -
  from assms have "window_ok u (LSet u user) st"
    by (auto simp: pool_inv_def)
  then show n: "active_tokens st u = []" by (simp add: window_ok_def)
  show a: "act (LoginStep i) (ps, st)
           = (ps[i := (e, LDone (login_success e u user))],
              st\<lparr>sessions := set_doc (uuid e) (new_session e u) (sessions st)\<rparr>)"
    if "\<not> fails e SessionSet"
    using that assms(2,3) by simp
  show "active_tokens (snd (act (LoginStep i) (ps, st))) u = [uuid e]"
    if "\<not> fails e SessionSet"
    using a [OF that] n by (simp add: active_after_own_set)
qed

text \<open>One login alone, and two logins one after the other.\<close>

lemma run_first:
  "run (replicate n (LoginStep 0)) ((e, p) # ps, st)
     = ((e, fst (login_steps n e (p, st))) # ps, snd (login_steps n e (p, st)))"
proof (induction n arbitrary: p st)
  case 0
  then show ?case by simp
next
  case (Suc n)
  obtain p1 st1 where s: "login_step e p st = (p1, st1)" by (cases "login_step e p st")
  with Suc.IH [of p1 st1] show ?case by simp
qed

lemma run_second:
  "run (replicate n (LoginStep (Suc 0))) (x # (e, p) # ps, st)
     = (x # (e, fst (login_steps n e (p, st))) # ps, snd (login_steps n e (p, st)))"
proof (induction n arbitrary: p st)
  case 0
  then show ?case by simp
next
  case (Suc n)
  obtain p1 st1 where s: "login_step e p st = (p1, st1)" by (cases "login_step e p st")
  with Suc.IH [of p1 st1] show ?case by simp
qed

lemma sched_ok_first:
  "list_all (\<lambda>p. \<not> in_window u (snd p)) ps \<Longrightarrow>
   sched_ok u (replicate n (LoginStep 0)) ((e, p) # ps, st)"
proof (induction n arbitrary: p st)
  case 0
  then show ?case by simp
next
  case (Suc n)
  obtain p1 st1 where s: "login_step e p st = (p1, st1)" by (cases "login_step e p st")
  with Suc.IH [of p1 st1] Suc.prems show ?case
    by (cases p) (simp_all del: login_step.simps)
qed

lemma sched_ok_second:
  "\<not> in_window u (snd x) \<Longrightarrow> list_all (\<lambda>p. \<not> in_window u (snd p)) ps \<Longrightarrow>
   sched_ok u (replicate n (LoginStep (Suc 0))) (x # (e, p) # ps, st)"
proof (induction n arbitrary: p st)
  case 0
  then show ?case by simp
next
  case (Suc n)
  obtain p1 st1 where s: "login_step e p st = (p1, st1)" by (cases "login_step e p st")
  with Suc.IH [of p1 st1] Suc.prems show ?case
    by (cases p) (simp_all del: login_step.simps)
qed

lemma run_in_turn:
  "run (replicate 4 (LoginStep 0) @ replicate 4 (LoginStep (Suc 0)))
       ([(eA, LStart bodyA), (eB, LStart bodyB)], st)
     = ([(eA, LDone (fst (login eA bodyA st))),
         (eB, LDone (fst (login eB bodyB (snd (login eA bodyA st)))))],
        snd (login eB bodyB (snd (login eA bodyA st))))"
  by (simp only: run_append run_first run_second login_steps_login fst_conv snd_conv)

lemma sched_ok_in_turn:
  "sched_ok u (replicate 4 (LoginStep 0) @ replicate 4 (LoginStep (Suc 0)))
       ([(eA, LStart bodyA), (eB, LStart bodyB)], st)"
  by (simp only: sched_ok_append run_first login_steps_login fst_conv snd_conv)
     (simp add: sched_ok_first sched_ok_second del: replicate.simps replicate_Suc)

lemma run_alone:
  "run (replicate 4 (LoginStep 0)) ([(e, LStart reqBody)], st)
     = ([(e, LDone (fst (login e reqBody st)))], snd (login e reqBody st))"
  by (simp only: run_first login_steps_login fst_conv snd_conv)

lemmas pool_simps =
  demo_pool_def demo_sched_def demo_env2_def logout_def logout_handler_def profile_def
  authenticateToken_def auth_load_user_def bearer_token_def get_doc_def doc_id_def harmless_def

lemma demo_run:
  "run demo_sched (demo_pool, demo_store)
     = ([(demo_env, LDone (login_success demo_env ''u1'' demo_user)),
         (demo_env2, LDone (login_success demo_env2 ''u1'' demo_user))],
        demo_store\<lparr>sessions :=
          [(''tok1'', [(''userId'', JStr ''u1''), (''expiresAt'', JTimestamp 5000),
                      (''isActive'', JBool False), (''logoutTime'', JTimestamp 1001)]),
           (''tok0'', [(''userId'', JStr ''u1''), (''expiresAt'', JTimestamp 500),
                      (''isActive'', JBool False)]),
           (''tok2'', [(''userId'', JStr ''u1''), (''loginTime'', JTimestamp 1001),
                      (''expiresAt'', JTimestamp 86401000), (''isActive'', JBool False),
                      (''logoutTime'', JTimestamp 1003)]),
           (''tok3'', [(''userId'', JStr ''u1''), (''loginTime'', JTimestamp 1003),
                      (''expiresAt'', JTimestamp 86401002), (''isActive'', JBool True)])]\<rparr>)"
  by (simp add: demo_simps pool_simps)

lemma demo_sched_ok: "sched_ok ''u1'' demo_sched (demo_pool, demo_store)"
  by (simp add: demo_simps pool_simps)

lemma demo_before_set:
  "run (take 6 demo_sched) (demo_pool, demo_store)
     = ([(demo_env, LSet ''u1'' demo_user), (demo_env2, LQuery ''u1'' demo_user)], demo_cleaned)"
  by (simp add: demo_simps pool_simps)

text \<open>
  C1 (as stated): at any time a user has at most one active session, and after any
  successful login the new session is the only active one. Two logins of one user whose
  storage calls alternate both find the old session, both log it out and both write their
  new session: both are answered 200 and the user has two active sessions.
\<close>

theorem overlapping_logins_two_active:
  "run [LoginStep 0, LoginStep 1, LoginStep 0, LoginStep 1,
        LoginStep 0, LoginStep 1, LoginStep 0, LoginStep 1] (demo_pool, demo_store)
     = ([(demo_env, LDone (login_success demo_env ''u1'' demo_user)),
         (demo_env2, LDone (login_success demo_env2 ''u1'' demo_user))],
        demo_store\<lparr>sessions :=
          [(''tok1'', [(''userId'', JStr ''u1''), (''expiresAt'', JTimestamp 5000),
                      (''isActive'', JBool False), (''logoutTime'', JTimestamp 1003)]),
           (''tok0'', [(''userId'', JStr ''u1''), (''expiresAt'', JTimestamp 500),
                      (''isActive'', JBool False)]),
           (''tok2'', [(''userId'', JStr ''u1''), (''loginTime'', JTimestamp 1001),
                      (''expiresAt'', JTimestamp 86401000), (''isActive'', JBool True)]),
           (''tok3'', [(''userId'', JStr ''u1''), (''loginTime'', JTimestamp 1003),
                      (''expiresAt'', JTimestamp 86401002), (''isActive'', JBool True)])]\<rparr>)
   \<and> active_tokens demo_store ''u1'' = [''tok1'']
   \<and> active_tokens
        (snd (run [LoginStep 0, LoginStep 1, LoginStep 0, LoginStep 1,
                   LoginStep 0, LoginStep 1, LoginStep 0, LoginStep 1] (demo_pool, demo_store)))
        ''u1'' = [''tok2'', ''tok3'']
   \<and> status (login_success demo_env ''u1'' demo_user) = 200
   \<and> status (login_success demo_env2 ''u1'' demo_user) = 200
   \<and> \<not> sched_ok ''u1'' [LoginStep 0, LoginStep 1, LoginStep 0, LoginStep 1,
                          LoginStep 0, LoginStep 1, LoginStep 0, LoginStep 1]
          (demo_pool, demo_store)"
  by (simp add: demo_simps demo_pool_def demo_env2_def)

text \<open>
  C1 (amended): a user has at most one active session at any time as long as no login
  queries the active sessions of the user while another login of the same user is between
  its own query and its write of the new session. Under every such schedule of any number
  of logins and of writes of other requests, started from a store in which the user has
  at most one active session, the user has at most one active session in the store
  reached, and the write of a new session by a login of the user makes it the only active
  one. The writes of the guard, of logout, of reset-password and of a login's batch, and
  these handlers as a whole, are harmless for every user; two logins run one after the
  other are such a schedule. A login that runs alone (\<open>login\<close>) leaves, when it
  succeeds, the new session as the only active one, every session of the user that was
  active before inactive, and every other document as it was; and each handler keeps the
  invariant that no user has two active sessions.
\<close>

theorem login_unique_active_session:
  "(status (fst (login e reqBody st)) = 200 \<longrightarrow>
      (\<exists>userId user others.
         users_with_email (users st) (field reqBody ''email'') = (userId, user) # others
         \<and> active_tokens (snd (login e reqBody st)) userId = [uuid e]
         \<and> get_doc (sessions (snd (login e reqBody st))) (uuid e) = Some (new_session e userId)
         \<and> (\<forall>t\<in>set (active_tokens st userId). t \<noteq> uuid e \<longrightarrow>
               (\<exists>d. get_doc (sessions (snd (login e reqBody st))) t = Some d
                    \<and> field d ''isActive'' = JBool False))
         \<and> (\<forall>t. t \<noteq> uuid e \<and> t \<notin> set (active_tokens st userId) \<longrightarrow>
               get_doc (sessions (snd (login e reqBody st))) t = get_doc (sessions st) t)))
   \<and> (single_active st \<longrightarrow>
        single_active (snd (login e reqBody st))
        \<and> single_active (snd (logout e h st))
        \<and> single_active (snd (authenticateToken e h st))
        \<and> single_active (snd (reset_password e h reqBody st))
        \<and> single_active (snd (profile e h st)))
   \<and> run (replicate 4 (LoginStep 0)) ([(e, LStart reqBody)], st)
        = ([(e, LDone (fst (login e reqBody st)))], snd (login e reqBody st))
   \<and> (list_all (\<lambda>p. \<not> in_window u (snd p)) ps \<and> length (active_tokens st u) \<le> 1
       \<and> sched_ok u sched (ps, st) \<longrightarrow>
        length (active_tokens (snd (run sched (ps, st))) u) \<le> 1
        \<and> (\<forall>i e1 user.
              i < length ps \<and> fst (run sched (ps, st)) ! i = (e1, LSet u user)
              \<and> \<not> fails e1 SessionSet \<longrightarrow>
              fst (act (LoginStep i) (run sched (ps, st))) ! i
                = (e1, LDone (login_success e1 u user))
              \<and> active_tokens (snd (act (LoginStep i) (run sched (ps, st)))) u = [uuid e1]))
   \<and> (harmless u st (st\<lparr>sessions := update_doc token [(''isActive'', JBool False)] (sessions st)\<rparr>)
      \<and> harmless u st (st\<lparr>sessions := update_doc token (logged_out e2) (sessions st)\<rparr>)
      \<and> harmless u st (st\<lparr>sessions := batch_update tokens (logged_out e2) (sessions st)\<rparr>)
      \<and> harmless u st (st\<lparr>users := c\<rparr>)
      \<and> (u1 \<noteq> u \<longrightarrow>
            harmless u st (st\<lparr>sessions := set_doc token (new_session e2 u1) (sessions st)\<rparr>))
      \<and> harmless u st (snd (authenticateToken e2 h st))
      \<and> harmless u st (snd (logout e2 h st))
      \<and> harmless u st (snd (reset_password e2 h reqBody2 st))
      \<and> harmless u st (snd (profile e2 h st)))
   \<and> sched_ok u (replicate 4 (LoginStep 0) @ replicate 4 (LoginStep (Suc 0)))
        ([(e, LStart reqBody), (e2, LStart reqBody2)], st)
   \<and> run (replicate 4 (LoginStep 0) @ replicate 4 (LoginStep (Suc 0)))
        ([(e, LStart reqBody), (e2, LStart reqBody2)], st)
        = ([(e, LDone (fst (login e reqBody st))),
            (e2, LDone (fst (login e2 reqBody2 (snd (login e reqBody st)))))],
           snd (login e2 reqBody2 (snd (login e reqBody st))))"
proof -
  have G: "list_all (\<lambda>p. \<not> in_window u (snd p)) ps \<and> length (active_tokens st u) \<le> 1
       \<and> sched_ok u sched (ps, st) \<longrightarrow>
        length (active_tokens (snd (run sched (ps, st))) u) \<le> 1
        \<and> (\<forall>i e1 user.
              i < length ps \<and> fst (run sched (ps, st)) ! i = (e1, LSet u user)
              \<and> \<not> fails e1 SessionSet \<longrightarrow>
              fst (act (LoginStep i) (run sched (ps, st))) ! i
                = (e1, LDone (login_success e1 u user))
              \<and> active_tokens (snd (act (LoginStep i) (run sched (ps, st)))) u = [uuid e1])"
  proof (intro impI, elim conjE)
    assume a: "list_all (\<lambda>p. \<not> in_window u (snd p)) ps" "length (active_tokens st u) \<le> 1"
      "sched_ok u sched (ps, st)"
    obtain ps1 st1 where r: "run sched (ps, st) = (ps1, st1)" by (cases "run sched (ps, st)")
    from length_run [of sched "(ps, st)"] r have l: "length ps1 = length ps" by simp
    from pool_inv_run [OF pool_inv_start [OF a(1,2)] a(3)] r
    have inv: "pool_inv u (ps1, st1)" by simp
    then have 1: "length (active_tokens st1 u) \<le> 1" by (simp add: pool_inv_def)
    have 2: "fst (act (LoginStep i) (ps1, st1)) ! i = (e1, LDone (login_success e1 u user))
             \<and> active_tokens (snd (act (LoginStep i) (ps1, st1))) u = [uuid e1]"
      if "i < length ps" "ps1 ! i = (e1, LSet u user)" "\<not> fails e1 SessionSet" for i e1 user
    proof -
      from that l have i: "i < length ps1" by simp
      from pool_inv_set(2) [OF inv i that(2,3)] i
      have "fst (act (LoginStep i) (ps1, st1)) ! i = (e1, LDone (login_success e1 u user))"
        by simp
      with pool_inv_set(3) [OF inv i that(2,3)] show ?thesis by simp
    qed
    from 1 2 show "length (active_tokens (snd (run sched (ps, st))) u) \<le> 1
        \<and> (\<forall>i e1 user.
              i < length ps \<and> fst (run sched (ps, st)) ! i = (e1, LSet u user)
              \<and> \<not> fails e1 SessionSet \<longrightarrow>
              fst (act (LoginStep i) (run sched (ps, st))) ! i
                = (e1, LDone (login_success e1 u user))
              \<and> active_tokens (snd (act (LoginStep i) (run sched (ps, st)))) u = [uuid e1])"
      unfolding r by simp
  qed
  have H: "harmless u st (st\<lparr>sessions := update_doc token [(''isActive'', JBool False)] (sessions st)\<rparr>)
      \<and> harmless u st (st\<lparr>sessions := update_doc token (logged_out e2) (sessions st)\<rparr>)
      \<and> harmless u st (st\<lparr>sessions := batch_update tokens (logged_out e2) (sessions st)\<rparr>)
      \<and> harmless u st (st\<lparr>users := c\<rparr>)
      \<and> (u1 \<noteq> u \<longrightarrow>
            harmless u st (st\<lparr>sessions := set_doc token (new_session e2 u1) (sessions st)\<rparr>))
      \<and> harmless u st (snd (authenticateToken e2 h st))
      \<and> harmless u st (snd (logout e2 h st))
      \<and> harmless u st (snd (reset_password e2 h reqBody2 st))
      \<and> harmless u st (snd (profile e2 h st))"
    by (intro conjI impI harmless_expire harmless_logged_out harmless_commit harmless_users
        harmless_set_other harmless_guard harmless_logout harmless_reset harmless_profile)
  note S = login_sequential [of e reqBody st h]
  show ?thesis
    apply (rule conjI, rule S [THEN conjunct1])
    apply (rule conjI, rule S [THEN conjunct2])
    apply (rule conjI, rule run_alone)
    apply (rule conjI, rule G)
    apply (rule conjI, rule H)
    apply (rule conjI, rule sched_ok_in_turn)
    apply (rule run_in_turn)
    done
qed

theorem login_unique_active_session_witness:
  "status (fst (login demo_env demo_login demo_store)) = 200
   \<and> single_active demo_store
   \<and> active_tokens (snd (login demo_env demo_login demo_store)) ''u1'' = [''tok2'']
   \<and> single_active (snd (login demo_env demo_login demo_store))
   \<and> sched_ok ''u1'' demo_sched (demo_pool, demo_store)
   \<and> length (active_tokens (snd (run demo_sched (demo_pool, demo_store))) ''u1'') \<le> 1
   \<and> active_tokens (snd (run demo_sched (demo_pool, demo_store))) ''u1'' = [''tok3'']
   \<and> fst (run (take 6 demo_sched) (demo_pool, demo_store)) ! 0 = (demo_env, LSet ''u1'' demo_user)
   \<and> active_tokens (snd (act (LoginStep 0) (run (take 6 demo_sched) (demo_pool, demo_store))))
        ''u1'' = [''tok2'']"
proof -
  note T = login_unique_active_session [of demo_env demo_login demo_store "Some ''x''"
      "''u1''" demo_pool]
  note G = T [THEN conjunct2, THEN conjunct2, THEN conjunct2, THEN conjunct1]
  have p: "list_all (\<lambda>p. \<not> in_window ''u1'' (snd p)) demo_pool"
    by (simp add: demo_pool_def)
  have l: "length (active_tokens demo_store ''u1'') \<le> 1"
    by (simp add: demo_simps)
  from G [of demo_sched] p l demo_sched_ok
  have g: "length (active_tokens (snd (run demo_sched (demo_pool, demo_store))) ''u1'') \<le> 1"
    by blast
  have ok6: "sched_ok ''u1'' (take 6 demo_sched) (demo_pool, demo_store)"
    using demo_sched_ok sched_ok_append [of "''u1''" "take 6 demo_sched" "drop 6 demo_sched"
        "(demo_pool, demo_store)"]
    by simp
  have b: "fst (run (take 6 demo_sched) (demo_pool, demo_store)) ! 0
      = (demo_env, LSet ''u1'' demo_user)"
    by (simp add: demo_before_set)
  have f: "\<not> fails demo_env SessionSet" by (simp add: demo_env_def)
  have n: "(0::nat) < length demo_pool" by (simp add: demo_pool_def)
  from G [of "take 6 demo_sched"] p l ok6 b f n
  have s: "active_tokens (snd (act (LoginStep 0) (run (take 6 demo_sched) (demo_pool, demo_store))))
        ''u1'' = [uuid demo_env]"
    by blast
  from T [THEN conjunct2, THEN conjunct1] demo_single_active
  have i: "single_active (snd (login demo_env demo_login demo_store))" by blast
  have a: "active_tokens (snd (run demo_sched (demo_pool, demo_store))) ''u1'' = [''tok3'']"
    unfolding demo_run by (simp add: demo_simps)
  have c: "active_tokens (snd (login demo_env demo_login demo_store)) ''u1'' = [''tok2'']"
    by (simp add: demo_login_run) (simp add: demo_simps)
  have d: "status (fst (login demo_env demo_login demo_store)) = 200"
    by (simp add: demo_login_run)
  have u: "uuid demo_env = ''tok2''" by (simp add: demo_env_def)
  show ?thesis
    using d demo_single_active c i demo_sched_ok g a b s [unfolded u] by blast
qed

text \<open>
  C6 (as stated): the deactivation of the old sessions and the write of the new session are
  one atomic commit, and no reachable state has two active sessions of the user. They are
  two commits: the login of the example passes through a store in which the old session is
  logged out and the new one is not written, and when the \<open>set\<close> of the new session
  raises this store is what login leaves behind, with the answer 500. And when a second
  login of the user runs between the query and the commit of the first, the user ends with
  two active sessions.
\<close>

theorem login_not_one_commit:
  "login_trace demo_env demo_login demo_store = [demo_store, demo_cleaned, demo_logged_in]
   \<and> demo_cleaned \<noteq> demo_store \<and> demo_cleaned \<noteq> demo_logged_in
   \<and> login (demo_env\<lparr>fails := (\<lambda>c. c = SessionSet)\<rparr>) demo_login demo_store
       = (login_internal_error, demo_cleaned)
   \<and> active_tokens demo_store ''u1'' = [''tok1'']
   \<and> active_tokens demo_cleaned ''u1'' = []
   \<and> get_doc (sessions demo_cleaned) ''tok2'' = None
   \<and> active_tokens
        (snd (run [LoginStep 0, LoginStep 0, LoginStep 1, LoginStep 1,
                   LoginStep 1, LoginStep 1, LoginStep 0, LoginStep 0] (demo_pool, demo_store)))
        ''u1'' = [''tok3'', ''tok2'']
   \<and> \<not> sched_ok ''u1'' [LoginStep 0, LoginStep 0, LoginStep 1, LoginStep 1,
                          LoginStep 1, LoginStep 1, LoginStep 0, LoginStep 0]
          (demo_pool, demo_store)"
  by (simp add: demo_simps get_doc_def demo_env2_def demo_pool_def)

lemma cleanup_noop:
  "active_sessions_of (sessions st) userId = [] \<Longrightarrow>
   cleanupPreviousSessions e userId st = Some st1 \<Longrightarrow> st1 = st"
  by (simp add: cleanupPreviousSessions_def split: if_splits)

lemma login_trace_last: "last (login_trace e reqBody st) = snd (login e reqBody st)"
  by (auto simp: login_trace_def login_def Let_def dest: cleanup_noop
      split: list.splits option.splits prod.splits)

lemma login_trace_hd: "hd (login_trace e reqBody st) = st"
  by (simp add: login_trace_def Let_def split: list.splits option.splits prod.splits)

lemma login_trace_cases:
  "login_trace e reqBody st = [st]
   \<or> (\<exists>userId user others st1.
        users_with_email (users st) (field reqBody ''email'') = (userId, user) # others
        \<and> cleanupPreviousSessions e userId st = Some st1
        \<and> login_trace e reqBody st
            = st # (if active_tokens st userId \<noteq> [] then [st1] else [])
                 @ (if fails e SessionSet then []
                    else [st1\<lparr>sessions := set_doc (uuid e) (new_session e userId) (sessions st1)\<rparr>]))"
proof (cases "users_with_email (users st) (field reqBody ''email'')")
  case Nil
  then show ?thesis by (simp add: login_trace_def Let_def)
next
  case (Cons p others)
  obtain userId user where p: "p = (userId, user)" by (cases p)
  show ?thesis
  proof (cases "login_trace e reqBody st = [st]")
    case True
    then show ?thesis by simp
  next
    case False
    with Cons p show ?thesis
      by (auto simp: login_trace_def Let_def active_tokens_def split: if_splits option.splits)
  qed
qed

lemma login_trace_single_active:
  assumes "single_active st" and "s \<in> set (login_trace e reqBody st)"
  shows "single_active s"
proof -
  from login_trace_cases [of e reqBody st] show ?thesis
  proof (elim disjE exE conjE)
    assume "login_trace e reqBody st = [st]"
    with assms show ?thesis by simp
  next
    fix userId user others st1
    assume c: "cleanupPreviousSessions e userId st = Some st1"
      and t: "login_trace e reqBody st
            = st # (if active_tokens st userId \<noteq> [] then [st1] else [])
                 @ (if fails e SessionSet then []
                    else [st1\<lparr>sessions := set_doc (uuid e) (new_session e userId) (sessions st1)\<rparr>])"
    have s1: "single_active st1" by (rule cleanup_single_active [OF c assms(1)])
    have s2: "single_active (st1\<lparr>sessions := set_doc (uuid e) (new_session e userId) (sessions st1)\<rparr>)"
      by (rule new_session_single_active [OF s1 cleanup_no_active [OF c]])
    from assms(2) t assms(1) s1 s2 show ?thesis by (auto split: if_splits)
  qed
qed

lemma login_two_commits_ok:
  "hd (login_trace e reqBody st) = st
   \<and> last (login_trace e reqBody st) = snd (login e reqBody st)
   \<and> (status (fst (login e reqBody st)) = 200 \<longrightarrow>
        (\<exists>userId user others st1.
           users_with_email (users st) (field reqBody ''email'') = (userId, user) # others
           \<and> cleanupPreviousSessions e userId st = Some st1
           \<and> login_trace e reqBody st
               = st # (if active_tokens st userId \<noteq> [] then [st1] else [])
                    @ [st1\<lparr>sessions := set_doc (uuid e) (new_session e userId) (sessions st1)\<rparr>]
           \<and> users st1 = users st
           \<and> (\<forall>t. get_doc (sessions st1) t
                  = (if t \<in> set (active_tokens st userId)
                     then map_option (merge_fields (logged_out e)) (get_doc (sessions st) t)
                     else get_doc (sessions st) t))
           \<and> active_tokens st1 userId = []
           \<and> active_tokens (st1\<lparr>sessions := set_doc (uuid e) (new_session e userId) (sessions st1)\<rparr>)
                userId = [uuid e]))
   \<and> (single_active st \<longrightarrow> (\<forall>s\<in>set (login_trace e reqBody st). single_active s))"
proof (intro conjI impI ballI)
  show "hd (login_trace e reqBody st) = st" by (rule login_trace_hd)
  show "last (login_trace e reqBody st) = snd (login e reqBody st)" by (rule login_trace_last)
next
  fix s assume "single_active st" "s \<in> set (login_trace e reqBody st)"
  then show "single_active s" by (rule login_trace_single_active)
next
  assume ok: "status (fst (login e reqBody st)) = 200"
  obtain r st2 where l: "login e reqBody st = (r, st2)" by (cases "login e reqBody st")
  with ok have r: "status r = 200" by simp
  from login_cases [OF l] r obtain userId user others st1 where
    u: "users_with_email (users st) (field reqBody ''email'') = (userId, user) # others"
    and p: "strict_eq (field user ''password_hash'') (field reqBody ''password'')"
    and c: "cleanupPreviousSessions e userId st = Some st1"
    and f: "\<not> fails e SessionSet"
    by auto
  from l r have v: "truthy (field reqBody ''email'')" "truthy (field reqBody ''password'')"
    "\<not> fails e UsersQuery"
    by (auto simp: login_def Let_def login_internal_error_def json_error_def split: if_splits)
  have t: "login_trace e reqBody st
               = st # (if active_tokens st userId \<noteq> [] then [st1] else [])
                    @ [st1\<lparr>sessions := set_doc (uuid e) (new_session e userId) (sessions st1)\<rparr>]"
    using u p c f v by (simp add: login_trace_def Let_def active_tokens_def)
  show "\<exists>userId user others st1.
           users_with_email (users st) (field reqBody ''email'') = (userId, user) # others
           \<and> cleanupPreviousSessions e userId st = Some st1
           \<and> login_trace e reqBody st
               = st # (if active_tokens st userId \<noteq> [] then [st1] else [])
                    @ [st1\<lparr>sessions := set_doc (uuid e) (new_session e userId) (sessions st1)\<rparr>]
           \<and> users st1 = users st
           \<and> (\<forall>t. get_doc (sessions st1) t
                  = (if t \<in> set (active_tokens st userId)
                     then map_option (merge_fields (logged_out e)) (get_doc (sessions st) t)
                     else get_doc (sessions st) t))
           \<and> active_tokens st1 userId = []
           \<and> active_tokens (st1\<lparr>sessions := set_doc (uuid e) (new_session e userId) (sessions st1)\<rparr>)
                userId = [uuid e]"
    using u c t cleanup_get_doc [OF c] cleanup_no_active [OF c] new_session_unique [OF c]
    by (intro exI [of _ userId] exI [of _ user] exI [of _ others] exI [of _ st1]) simp
qed



lemma login_failed_write:
  assumes "truthy (field reqBody ''email'')" "truthy (field reqBody ''password'')"
    "\<not> fails e UsersQuery"
    "users_with_email (users st) (field reqBody ''email'') = (userId, user) # others"
    "strict_eq (field user ''password_hash'') (field reqBody ''password'')"
  shows "(cleanupPreviousSessions e userId st = None \<longrightarrow>
            login e reqBody st = (login_internal_error, st) \<and> login_trace e reqBody st = [st])
       \<and> (\<forall>st1. cleanupPreviousSessions e userId st = Some st1 \<and> fails e SessionSet \<longrightarrow>
            login e reqBody st = (login_internal_error, st1)
            \<and> login_trace e reqBody st
                = st # (if active_tokens st userId \<noteq> [] then [st1] else [])
            \<and> users st1 = users st
            \<and> active_tokens st1 userId = []
            \<and> (\<forall>t. get_doc (sessions st1) t
                   = (if t \<in> set (active_tokens st userId)
                      then map_option (merge_fields (logged_out e)) (get_doc (sessions st) t)
                      else get_doc (sessions st) t)))"
proof (intro conjI impI allI)
  assume "cleanupPreviousSessions e userId st = None"
  with assms show "login e reqBody st = (login_internal_error, st)"
    and "login_trace e reqBody st = [st]"
    by (simp_all add: login_def login_trace_def Let_def)
next
  fix st1
  assume a: "cleanupPreviousSessions e userId st = Some st1 \<and> fails e SessionSet"
  then have c: "cleanupPreviousSessions e userId st = Some st1" by simp
  from a assms show "login e reqBody st = (login_internal_error, st1)"
    by (simp add: login_def Let_def)
  from a assms show "login_trace e reqBody st
                = st # (if active_tokens st userId \<noteq> [] then [st1] else [])"
    by (simp add: login_trace_def Let_def active_tokens_def)
  show "users st1 = users st" by (rule cleanup_get_doc(1) [OF c])
  show "active_tokens st1 userId = []" by (rule cleanup_no_active [OF c])
  fix t
  show "get_doc (sessions st1) t
                   = (if t \<in> set (active_tokens st userId)
                      then map_option (merge_fields (logged_out e)) (get_doc (sessions st) t)
                      else get_doc (sessions st) t)"
    by (rule cleanup_get_doc(2) [OF c])
qed

lemma login_trace_nonempty: "login_trace e reqBody st \<noteq> []"
  using login_trace_cases [of e reqBody st] by auto

lemma start_step:
  "(\<exists>r. login_step e (LStart reqBody) st = (LDone r, st) \<and> login_trace e reqBody st = [st])
   \<or> (\<exists>userId user.
        login_step e (LStart reqBody) st = (LQuery userId user, st)
        \<and> login_trace e reqBody st
            = (case cleanupPreviousSessions e userId st of
                 None \<Rightarrow> [st]
               | Some st1 \<Rightarrow>
                   st # (if active_sessions_of (sessions st) userId \<noteq> [] then [st1] else [])
                      @ (if fails e SessionSet then []
                         else [st1\<lparr>sessions :=
                                     set_doc (uuid e) (new_session e userId) (sessions st1)\<rparr>])))"
proof (cases "users_with_email (users st) (field reqBody ''email'')")
  case Nil
  then show ?thesis by (simp add: login_trace_def Let_def)
next
  case (Cons p others)
  obtain userId user where p: "p = (userId, user)" by (cases p)
  with Cons show ?thesis by (simp add: login_trace_def Let_def)
qed

lemma query_steps:
  "snd (login_steps 2 e (LQuery userId user, st))
     \<in> set (case cleanupPreviousSessions e userId st of
              None \<Rightarrow> [st]
            | Some st1 \<Rightarrow>
                st # (if active_sessions_of (sessions st) userId \<noteq> [] then [st1] else [])
                   @ (if fails e SessionSet then []
                      else [st1\<lparr>sessions :=
                                  set_doc (uuid e) (new_session e userId) (sessions st1)\<rparr>]))"
  by (simp add: numeral_2_eq_2 Let_def cleanupPreviousSessions_def)

lemma query_step:
  "snd (login_step e (LQuery userId user) st) = st"
  by (simp add: Let_def)

lemma login_steps_in_trace:
  "snd (login_steps k e (LStart reqBody, st)) \<in> set (login_trace e reqBody st)"
proof (cases "4 \<le> k")
  case True
  then obtain m where k: "k = 4 + m" using le_Suc_ex by blast
  have "snd (login_steps k e (LStart reqBody, st)) = snd (login e reqBody st)"
    unfolding k login_steps_add login_steps_login by (simp add: login_steps_done)
  also have "\<dots> = last (login_trace e reqBody st)" by (simp add: login_trace_last)
  finally show ?thesis using login_trace_nonempty [of e reqBody st] by simp
next
  case False
  have h: "st \<in> set (login_trace e reqBody st)"
    using login_trace_hd [of e reqBody st] login_trace_nonempty [of e reqBody st]
    by (cases "login_trace e reqBody st") auto
  from False consider "k = 0" | "k = 1" | "k = 2" | "k = 3" by linarith
  then show ?thesis
  proof cases
    case 1
    with h show ?thesis by simp
  next
    case 2
    from start_step [of e reqBody st] have "snd (login_step e (LStart reqBody) st) = st" by auto
    with 2 h show ?thesis by simp
  next
    case 3
    have "login_steps 2 e (LStart reqBody, st)
        = login_step e (fst (login_step e (LStart reqBody) st)) (snd (login_step e (LStart reqBody) st))"
      by (simp add: numeral_2_eq_2)
    with start_step [of e reqBody st] query_step [of e _ _ st]
    have "snd (login_steps 2 e (LStart reqBody, st)) = st" by auto
    with 3 h show ?thesis by simp
  next
    case 4
    have e3: "login_steps 3 e (LStart reqBody, st)
        = login_steps 2 e (login_step e (LStart reqBody) st)"
      by (simp add: numeral_3_eq_3 numeral_2_eq_2)
    from start_step [of e reqBody st] show ?thesis
    proof (elim disjE exE conjE)
      fix r
      assume "login_step e (LStart reqBody) st = (LDone r, st)"
      then show ?thesis unfolding 4 e3 using h by (simp add: login_steps_done)
    next
      fix userId user
      assume s: "login_step e (LStart reqBody) st = (LQuery userId user, st)"
        and t: "login_trace e reqBody st
            = (case cleanupPreviousSessions e userId st of
                 None \<Rightarrow> [st]
               | Some st1 \<Rightarrow>
                   st # (if active_sessions_of (sessions st) userId \<noteq> [] then [st1] else [])
                      @ (if fails e SessionSet then []
                         else [st1\<lparr>sessions :=
                                     set_doc (uuid e) (new_session e userId) (sessions st1)\<rparr>]))"
      show ?thesis unfolding 4 e3 s t by (rule query_steps)
    qed
  qed
qed

text \<open>
  C6 (amended): the deactivation of the user's active sessions is committed as one batch
  (all of them or, when the commit raises, none), and the new session is written
  afterwards, as a second write. A login that runs alone can be stopped in the store
  before, the store after the batch or the store after the second write, and in no other.
  After the batch the user has no active session, and this is the store a raising second
  write leaves behind, with the answer 500; after the second write the user has exactly
  the new one. None of these stores has two active sessions for one user when the store
  before had none such. Among other requests, as long as no login queries the active
  sessions of the user while another login of the same user is between its query and its
  write: no store reached has two active sessions of the user, a login about to commit
  its batch has every active session of the user in the batch, and a login about to write
  its new session finds the user without an active session.
\<close>

theorem login_two_commits:
  "hd (login_trace e reqBody st) = st
   \<and> last (login_trace e reqBody st) = snd (login e reqBody st)
   \<and> (\<forall>k. snd (login_steps k e (LStart reqBody, st)) \<in> set (login_trace e reqBody st))
   \<and> (status (fst (login e reqBody st)) = 200 \<longrightarrow>
        (\<exists>userId user others st1.
           users_with_email (users st) (field reqBody ''email'') = (userId, user) # others
           \<and> cleanupPreviousSessions e userId st = Some st1
           \<and> login_trace e reqBody st
               = st # (if active_tokens st userId \<noteq> [] then [st1] else [])
                    @ [st1\<lparr>sessions := set_doc (uuid e) (new_session e userId) (sessions st1)\<rparr>]
           \<and> users st1 = users st
           \<and> (\<forall>t. get_doc (sessions st1) t
                  = (if t \<in> set (active_tokens st userId)
                     then map_option (merge_fields (logged_out e)) (get_doc (sessions st) t)
                     else get_doc (sessions st) t))
           \<and> active_tokens st1 userId = []
           \<and> active_tokens (st1\<lparr>sessions := set_doc (uuid e) (new_session e userId) (sessions st1)\<rparr>)
                userId = [uuid e]))
   \<and> (\<forall>userId user others.
        truthy (field reqBody ''email'') \<and> truthy (field reqBody ''password'')
        \<and> \<not> fails e UsersQuery
        \<and> users_with_email (users st) (field reqBody ''email'') = (userId, user) # others
        \<and> strict_eq (field user ''password_hash'') (field reqBody ''password'') \<longrightarrow>
        (cleanupPreviousSessions e userId st = None \<longrightarrow>
            login e reqBody st = (login_internal_error, st) \<and> login_trace e reqBody st = [st])
        \<and> (\<forall>st1. cleanupPreviousSessions e userId st = Some st1 \<and> fails e SessionSet \<longrightarrow>
            login e reqBody st = (login_internal_error, st1)
            \<and> login_trace e reqBody st
                = st # (if active_tokens st userId \<noteq> [] then [st1] else [])
            \<and> users st1 = users st
            \<and> active_tokens st1 userId = []
            \<and> (\<forall>t. get_doc (sessions st1) t
                   = (if t \<in> set (active_tokens st userId)
                      then map_option (merge_fields (logged_out e)) (get_doc (sessions st) t)
                      else get_doc (sessions st) t))))
   \<and> (single_active st \<longrightarrow> (\<forall>s\<in>set (login_trace e reqBody st). single_active s))
   \<and> (list_all (\<lambda>p. \<not> in_window u (snd p)) ps \<and> length (active_tokens st u) \<le> 1
       \<and> sched_ok u sched (ps, st) \<longrightarrow>
        length (active_tokens (snd (run sched (ps, st))) u) \<le> 1
        \<and> (\<forall>i e1 user tokens.
              i < length ps \<and> fst (run sched (ps, st)) ! i = (e1, LCommit u user tokens) \<longrightarrow>
              set (active_tokens (snd (run sched (ps, st))) u) \<subseteq> set tokens)
        \<and> (\<forall>i e1 user.
              i < length ps \<and> fst (run sched (ps, st)) ! i = (e1, LSet u user) \<longrightarrow>
              active_tokens (snd (run sched (ps, st))) u = []))"
proof -
  have F: "\<forall>userId user others.
        truthy (field reqBody ''email'') \<and> truthy (field reqBody ''password'')
        \<and> \<not> fails e UsersQuery
        \<and> users_with_email (users st) (field reqBody ''email'') = (userId, user) # others
        \<and> strict_eq (field user ''password_hash'') (field reqBody ''password'') \<longrightarrow>
        (cleanupPreviousSessions e userId st = None \<longrightarrow>
            login e reqBody st = (login_internal_error, st) \<and> login_trace e reqBody st = [st])
        \<and> (\<forall>st1. cleanupPreviousSessions e userId st = Some st1 \<and> fails e SessionSet \<longrightarrow>
            login e reqBody st = (login_internal_error, st1)
            \<and> login_trace e reqBody st
                = st # (if active_tokens st userId \<noteq> [] then [st1] else [])
            \<and> users st1 = users st
            \<and> active_tokens st1 userId = []
            \<and> (\<forall>t. get_doc (sessions st1) t
                   = (if t \<in> set (active_tokens st userId)
                      then map_option (merge_fields (logged_out e)) (get_doc (sessions st) t)
                      else get_doc (sessions st) t)))"
    using login_failed_write [of reqBody e st] by blast
  have K: "\<forall>k. snd (login_steps k e (LStart reqBody, st)) \<in> set (login_trace e reqBody st)"
    by (simp add: login_steps_in_trace)
  have O: "hd (login_trace e reqBody st) = st
   \<and> last (login_trace e reqBody st) = snd (login e reqBody st)"
    by (simp add: login_trace_hd login_trace_last)
  have G: "list_all (\<lambda>p. \<not> in_window u (snd p)) ps \<and> length (active_tokens st u) \<le> 1
       \<and> sched_ok u sched (ps, st) \<longrightarrow>
        length (active_tokens (snd (run sched (ps, st))) u) \<le> 1
        \<and> (\<forall>i e1 user tokens.
              i < length ps \<and> fst (run sched (ps, st)) ! i = (e1, LCommit u user tokens) \<longrightarrow>
              set (active_tokens (snd (run sched (ps, st))) u) \<subseteq> set tokens)
        \<and> (\<forall>i e1 user.
              i < length ps \<and> fst (run sched (ps, st)) ! i = (e1, LSet u user) \<longrightarrow>
              active_tokens (snd (run sched (ps, st))) u = [])"
  proof (intro impI, elim conjE)
    assume a: "list_all (\<lambda>p. \<not> in_window u (snd p)) ps" "length (active_tokens st u) \<le> 1"
      "sched_ok u sched (ps, st)"
    obtain ps1 st1 where r: "run sched (ps, st) = (ps1, st1)" by (cases "run sched (ps, st)")
    from length_run [of sched "(ps, st)"] r have l: "length ps1 = length ps" by simp
    from pool_inv_run [OF pool_inv_start [OF a(1,2)] a(3)] r
    have inv: "pool_inv u (ps1, st1)" by simp
    then have 1: "length (active_tokens st1 u) \<le> 1" by (simp add: pool_inv_def)
    have w: "window_ok u (snd (ps1 ! i)) st1" if "i < length ps" for i
      using inv that l by (simp add: pool_inv_def)
    have 2: "set (active_tokens st1 u) \<subseteq> set tokens"
      if "i < length ps" "ps1 ! i = (e1, LCommit u user tokens)" for i e1 user tokens
      using w [OF that(1)] that(2) by (simp add: window_ok_def)
    have 3: "active_tokens st1 u = []"
      if "i < length ps" "ps1 ! i = (e1, LSet u user)" for i e1 user
      using w [OF that(1)] that(2) by (simp add: window_ok_def)
    from 1 2 3 show "length (active_tokens (snd (run sched (ps, st))) u) \<le> 1
        \<and> (\<forall>i e1 user tokens.
              i < length ps \<and> fst (run sched (ps, st)) ! i = (e1, LCommit u user tokens) \<longrightarrow>
              set (active_tokens (snd (run sched (ps, st))) u) \<subseteq> set tokens)
        \<and> (\<forall>i e1 user.
              i < length ps \<and> fst (run sched (ps, st)) ! i = (e1, LSet u user) \<longrightarrow>
              active_tokens (snd (run sched (ps, st))) u = [])"
      unfolding r fst_conv snd_conv by blast
  qed
  note P = login_two_commits_ok [of e reqBody st, THEN conjunct2, THEN conjunct2]
  show ?thesis
    apply (rule conjI, rule O [THEN conjunct1])
    apply (rule conjI, rule O [THEN conjunct2])
    apply (rule conjI, rule K)
    apply (rule conjI, rule P [THEN conjunct1])
    apply (rule conjI, rule F)
    apply (rule conjI, rule P [THEN conjunct2])
    apply (rule G)
    done
qed

theorem login_two_commits_witness:
  "status (fst (login demo_env demo_login demo_store)) = 200
   \<and> single_active demo_store
   \<and> login_trace demo_env demo_login demo_store = [demo_store, demo_cleaned, demo_logged_in]
   \<and> single_active demo_cleaned \<and> single_active demo_logged_in
   \<and> login (demo_env\<lparr>fails := (\<lambda>c. c = SessionSet)\<rparr>) demo_login demo_store
       = (login_internal_error, demo_cleaned)
   \<and> sched_ok ''u1'' (take 6 demo_sched) (demo_pool, demo_store)
   \<and> run (take 6 demo_sched) (demo_pool, demo_store)
       = ([(demo_env, LSet ''u1'' demo_user), (demo_env2, LQuery ''u1'' demo_user)], demo_cleaned)
   \<and> active_tokens (snd (run (take 6 demo_sched) (demo_pool, demo_store))) ''u1'' = []"
proof -
  note T = login_two_commits [of demo_env demo_login demo_store "''u1''" demo_pool
      "take 6 demo_sched"]
  have tr: "login_trace demo_env demo_login demo_store = [demo_store, demo_cleaned, demo_logged_in]"
    by (simp add: demo_simps)
  have "single_active demo_store \<longrightarrow>
      (\<forall>s\<in>set (login_trace demo_env demo_login demo_store). single_active s)"
    by (rule T [THEN conjunct2, THEN conjunct2, THEN conjunct2, THEN conjunct2, THEN conjunct2,
          THEN conjunct1])
  with demo_single_active have inv: "single_active demo_cleaned \<and> single_active demo_logged_in"
    unfolding tr by simp
  have f: "login (demo_env\<lparr>fails := (\<lambda>c. c = SessionSet)\<rparr>) demo_login demo_store
       = (login_internal_error, demo_cleaned)"
    by (simp add: demo_simps)
  note G = T [THEN conjunct2, THEN conjunct2, THEN conjunct2, THEN conjunct2, THEN conjunct2,
      THEN conjunct2]
  have p: "list_all (\<lambda>p. \<not> in_window ''u1'' (snd p)) demo_pool"
    by (simp add: demo_pool_def)
  have l: "length (active_tokens demo_store ''u1'') \<le> 1"
    by (simp add: demo_simps)
  have ok6: "sched_ok ''u1'' (take 6 demo_sched) (demo_pool, demo_store)"
    using demo_sched_ok sched_ok_append [of "''u1''" "take 6 demo_sched" "drop 6 demo_sched"
        "(demo_pool, demo_store)"]
    by simp
  have b: "fst (run (take 6 demo_sched) (demo_pool, demo_store)) ! 0
      = (demo_env, LSet ''u1'' demo_user)"
    by (simp add: demo_before_set)
  have n: "(0::nat) < length demo_pool" by (simp add: demo_pool_def)
  from G p l ok6 b n
  have e: "active_tokens (snd (run (take 6 demo_sched) (demo_pool, demo_store))) ''u1'' = []"
    by blast
  have d: "status (fst (login demo_env demo_login demo_store)) = 200"
    by (simp add: demo_login_run)
  show ?thesis using d demo_single_active tr inv f ok6 demo_before_set e by blast
qed


section \<open>Properties of the enrollment aggregator\<close>

lemma parent_path_nonempty: "spec_deriveParentPath r = Some pp \<Longrightarrow> pp \<noteq> []"
  by (auto simp: spec_deriveParentPath_def split: option.splits if_splits)

lemma getParent_of_ref: "getParentClassRefPath (JRef p) = Inr (spec_deriveParentPath (JRef p))"
  by (rule getParentClassRefPath_refines) (simp add: path_is_string_def)

lemma collect_pair_total:
  assumes "db = \<lparr>db_doc = (\<lambda>p. Some (doc_of p)), db_get = (\<lambda>r. Some (snap_of r))\<rparr>"
  shows "collect_pair db sp c =
     Inr (case spec_deriveParentPath (JRef sp) of
            None \<Rightarrow> c\<lparr>warnings := warnings c @ [NoParentPath sp]\<rparr>
          | Some pp \<Rightarrow>
              c\<lparr>fetchPromises := fetchPromises c @ map Some (pair_promises doc_of snap_of (sp, pp)),
                validSubjectRefs := validSubjectRefs c @ [(sp, pp)]\<rparr>)"
  using assms parent_path_nonempty [of "JRef sp"]
  by (auto simp: collect_pair_def getParent_of_ref pair_promises_def split: option.splits)

lemma collect_ref_total:
  assumes "db = \<lparr>db_doc = (\<lambda>p. Some (doc_of p)), db_get = (\<lambda>r. Some (snap_of r))\<rparr>"
    and "\<not> to_string_raises r"
  shows "collect_ref db r c =
     Inr (c\<lparr>fetchPromises :=
              fetchPromises c
              @ (case valid_pair doc_of r of
                   None \<Rightarrow> []
                 | Some ctx \<Rightarrow> map Some (pair_promises doc_of snap_of ctx)),
            validSubjectRefs :=
              validSubjectRefs c @ (case valid_pair doc_of r of None \<Rightarrow> [] | Some ctx \<Rightarrow> [ctx]),
            warnings := warnings c @ shape_warnings doc_of r\<rparr>)"
proof (cases "spec_handle doc_of r")
  case None
  then have "collect_ref db r c = Inr (c\<lparr>warnings := warnings c @ [InvalidReference r]\<rparr>)"
    using assms(2)
    by (auto simp: collect_ref_def warn_invalid_def spec_handle_def split: jsval.splits if_splits)
  with None show ?thesis by (simp add: valid_pair_def shape_warnings_def)
next
  case (Some sp)
  then have "collect_ref db r c = collect_pair db sp c"
    using assms by (auto simp: collect_ref_def spec_handle_def split: jsval.splits if_splits)
  with Some show ?thesis
    by (simp add: collect_pair_total [OF assms(1)] valid_pair_def shape_warnings_def
        split: option.splits)
qed

lemma collect_refs_total:
  assumes "db = \<lparr>db_doc = (\<lambda>p. Some (doc_of p)), db_get = (\<lambda>r. Some (snap_of r))\<rparr>"
    and "\<forall>r\<in>set refs. \<not> to_string_raises r"
  shows "collect_refs db refs c =
     Inr (c\<lparr>fetchPromises :=
              fetchPromises c
              @ map Some (concat (map (pair_promises doc_of snap_of)
                                    (List.map_filter (valid_pair doc_of) refs))),
            validSubjectRefs := validSubjectRefs c @ List.map_filter (valid_pair doc_of) refs,
            warnings := warnings c @ concat (map (shape_warnings doc_of) refs)\<rparr>)"
  using assms(2)
proof (induction refs arbitrary: c)
  case Nil
  then show ?case by (simp add: map_filter_simps)
next
  case (Cons r refs)
  then have r: "\<not> to_string_raises r" and rest: "\<forall>r\<in>set refs. \<not> to_string_raises r"
    by simp_all
  show ?case
    by (simp add: collect_ref_total [OF assms(1) r] Cons.IH [OF rest] map_filter_simps
        split: option.splits)
qed

lemma promise_all_Some: "promise_all (map Some xs) = Some xs"
  by (induction xs) auto

lemma pair_step_total:
  "pair_step (snap_of (fst ctx)) (Some (snap_of (doc_of (snd ctx)))) (Some ctx) acc
     = Inr (fst acc @ (case pair_subject doc_of snap_of ctx of None \<Rightarrow> [] | Some d \<Rightarrow> [d]),
            snd acc @ pair_warnings doc_of snap_of ctx)"
  by (simp add: pair_step_def pair_subject_def pair_warnings_def)

lemma pair_loop_total:
  "pair_loop (concat (map (pair_promises doc_of snap_of) ctxs)) ctxs acc
     = Inr (fst acc @ List.map_filter (pair_subject doc_of snap_of) ctxs,
            snd acc @ concat (map (pair_warnings doc_of snap_of) ctxs))"
proof (induction ctxs arbitrary: acc)
  case Nil
  then show ?case by (simp add: map_filter_simps)
next
  case (Cons ctx ctxs)
  show ?case
    by (simp add: pair_promises_def first_of_def pair_step_total [unfolded pair_promises_def]
        Cons.IH [unfolded pair_promises_def] map_filter_simps split: option.splits)
qed

lemma spec_resolve_split:
  "fst (spec_resolve doc_of snap_of r)
     = (case valid_pair doc_of r of None \<Rightarrow> None | Some ctx \<Rightarrow> pair_subject doc_of snap_of ctx)"
  "snd (spec_resolve doc_of snap_of r)
     = shape_warnings doc_of r
       @ (case valid_pair doc_of r of None \<Rightarrow> [] | Some ctx \<Rightarrow> pair_warnings doc_of snap_of ctx)"
proof -
  have "fst (spec_resolve doc_of snap_of r)
     = (case valid_pair doc_of r of None \<Rightarrow> None | Some ctx \<Rightarrow> pair_subject doc_of snap_of ctx)
    \<and> snd (spec_resolve doc_of snap_of r)
     = shape_warnings doc_of r
       @ (case valid_pair doc_of r of None \<Rightarrow> [] | Some ctx \<Rightarrow> pair_warnings doc_of snap_of ctx)"
  proof (cases "spec_handle doc_of r")
    case None
    then show ?thesis by (simp add: spec_resolve_def valid_pair_def shape_warnings_def)
  next
    case (Some sp)
    show ?thesis
    proof (cases "spec_deriveParentPath (JRef sp)")
      case None
      with Some show ?thesis by (simp add: spec_resolve_def valid_pair_def shape_warnings_def)
    next
      case (Some pp)
      with \<open>spec_handle doc_of r = Some sp\<close> show ?thesis
        by (simp add: spec_resolve_def valid_pair_def shape_warnings_def pair_subject_def
            pair_warnings_def)
    qed
  qed
  then show "fst (spec_resolve doc_of snap_of r)
     = (case valid_pair doc_of r of None \<Rightarrow> None | Some ctx \<Rightarrow> pair_subject doc_of snap_of ctx)"
    and "snd (spec_resolve doc_of snap_of r)
     = shape_warnings doc_of r
       @ (case valid_pair doc_of r of None \<Rightarrow> [] | Some ctx \<Rightarrow> pair_warnings doc_of snap_of ctx)"
    by simp_all
qed

lemma shape_warnings_shape: "filter shape_warning (shape_warnings doc_of r) = shape_warnings doc_of r"
  "filter (\<lambda>w. \<not> shape_warning w) (shape_warnings doc_of r) = []"
  by (simp_all add: shape_warnings_def split: option.splits)

lemma pair_warnings_shape: "filter shape_warning (pair_warnings doc_of snap_of ctx) = []"
  "filter (\<lambda>w. \<not> shape_warning w) (pair_warnings doc_of snap_of ctx) = pair_warnings doc_of snap_of ctx"
  by (simp_all add: pair_warnings_def)

lemma spec_subjects_passes:
  "spec_subjects doc_of snap_of refs
     = List.map_filter (pair_subject doc_of snap_of) (List.map_filter (valid_pair doc_of) refs)"
  unfolding spec_subjects_def
  by (induction refs) (simp_all add: map_filter_simps spec_resolve_split split: option.splits)

lemma spec_warnings_passes:
  "spec_warnings doc_of snap_of refs
     = concat (map (shape_warnings doc_of) refs)
       @ concat (map (pair_warnings doc_of snap_of) (List.map_filter (valid_pair doc_of) refs))"
proof -
  have a: "filter shape_warning (concat (map (\<lambda>r. snd (spec_resolve doc_of snap_of r)) refs))
      = concat (map (shape_warnings doc_of) refs)"
    by (induction refs)
      (simp_all add: spec_resolve_split shape_warnings_shape pair_warnings_shape split: option.splits)
  have b: "filter (\<lambda>w. \<not> shape_warning w) (concat (map (\<lambda>r. snd (spec_resolve doc_of snap_of r)) refs))
      = concat (map (pair_warnings doc_of snap_of) (List.map_filter (valid_pair doc_of) refs))"
    by (induction refs)
      (simp_all add: spec_resolve_split shape_warnings_shape pair_warnings_shape map_filter_simps
        split: option.splits)
  show ?thesis by (simp add: spec_warnings_def Let_def a b)
qed

lemma fetch_total:
  assumes db: "db = \<lparr>db_doc = (\<lambda>p. Some (doc_of p)), db_get = (\<lambda>r. Some (snap_of r))\<rparr>"
    and u: "usersCollection userId = Some userDoc" and ex: "snap_exists userDoc"
    and pr: "\<forall>r\<in>set (enrolled_refs userDoc). \<not> to_string_raises r"
  shows "fetchEnrolledClassesWithParents db usersCollection userId
     = Inr (spec_subjects doc_of snap_of (enrolled_refs userDoc),
            spec_warnings doc_of snap_of (enrolled_refs userDoc))"
proof -
  let ?refs = "enrolled_refs userDoc"
  let ?ctxs = "List.map_filter (valid_pair doc_of) ?refs"
  show ?thesis
  proof (cases "?refs = []")
    case True
    then show ?thesis
      using u ex
      by (simp add: fetchEnrolledClassesWithParents_def spec_subjects_passes spec_warnings_passes
          map_filter_simps)
  next
    case False
    show ?thesis
    proof (cases "?ctxs = []")
      case True
      with False u ex show ?thesis
        by (simp add: fetchEnrolledClassesWithParents_def collect_refs_total [OF db pr]
            spec_subjects_passes spec_warnings_passes map_filter_simps)
    next
      case ne: False
      then obtain ctx rest where "?ctxs = ctx # rest" by (cases ?ctxs) auto
      then have "ctx \<in> set ?ctxs" "pair_promises doc_of snap_of ctx \<noteq> []"
        by (simp_all add: pair_promises_def)
      then have "\<not> (\<forall>xs\<in>set ?ctxs. pair_promises doc_of snap_of xs = [])"
        by blast
      with False u ex show ?thesis
        by (auto simp: fetchEnrolledClassesWithParents_def Let_def collect_refs_total [OF db pr]
            promise_all_Some pair_loop_total spec_subjects_passes spec_warnings_passes)
    qed
  qed
qed

text \<open>No step of the function raises the error of the missing user but the first.\<close>

lemma collect_refs_not_found: "collect_refs db refs c \<noteq> Inl UserProfileNotFound"
proof (induction refs arbitrary: c)
  case Nil
  then show ?case by simp
next
  case (Cons r refs)
  have "collect_ref db r c \<noteq> Inl UserProfileNotFound"
    by (auto simp: collect_ref_def warn_invalid_def collect_pair_def
        split: jsval.splits option.splits sum.splits if_splits)
  with Cons show ?case by (auto split: sum.splits)
qed

lemma pair_step_not_found: "pair_step s cls ctx acc \<noteq> Inl UserProfileNotFound"
  by (auto simp: pair_step_def split: option.splits)

lemma pair_loop_not_found: "pair_loop snaps refs acc \<noteq> Inl UserProfileNotFound"
  by (induction snaps refs acc rule: pair_loop.induct)
    (auto simp: pair_step_not_found split: sum.splits)

lemma fetch_not_found:
  assumes "fetchEnrolledClassesWithParents db usersCollection userId = Inl UserProfileNotFound"
  shows "\<exists>userDoc. usersCollection userId = Some userDoc \<and> \<not> snap_exists userDoc"
proof (rule ccontr)
  assume n: "\<not> ?thesis"
  show False
  proof (cases "usersCollection userId")
    case None
    with assms show False by (simp add: fetchEnrolledClassesWithParents_def)
  next
    case (Some userDoc)
    with n have ex: "snap_exists userDoc" by simp
    from assms Some ex collect_refs_not_found pair_loop_not_found show False
      by (auto simp: fetchEnrolledClassesWithParents_def Let_def
          split: if_splits sum.splits option.splits)
  qed
qed

lemma parentClass_of_subject_record: "field (subject_record s pc) ''parentClass'' = pc"
  by (simp add: subject_record_def)

lemma skipped_has_warning:
  assumes "r \<in> set refs" and "fst (spec_resolve doc_of snap_of r) = None"
  shows "\<exists>w. snd (spec_resolve doc_of snap_of r) = [w] \<and> w \<in> set (spec_warnings doc_of snap_of refs)"
proof -
  from assms(2) obtain w where w: "snd (spec_resolve doc_of snap_of r) = [w]"
    by (auto simp: spec_resolve_def split: option.splits if_splits)
  with assms(1) have "w \<in> set (concat (map (\<lambda>r. snd (spec_resolve doc_of snap_of r)) refs))"
    by force
  then have "w \<in> set (spec_warnings doc_of snap_of refs)"
    by (auto simp: spec_warnings_def Let_def)
  with w show ?thesis by blast
qed

text \<open>
  C4, for an enrollment list whose items can be written into a warning: on a storage whose
  calls do not raise, the aggregator returns for a user that exists the subjects of the
  references that survive, in the order of the list, and a log with a warning for every
  reference it skipped (one that is no reference object and no path string, one with no
  derivable parent path, one whose subject document does not exist); a subject whose
  parent class document does not exist is in the output with \<open>parentClass\<close> null.
  The call fails with the error of the missing user profile when the user document does
  not exist, and, on any storage, only then.
\<close>

theorem fetchEnrolled_tolerant:
  assumes "db = \<lparr>db_doc = (\<lambda>p. Some (doc_of p)), db_get = (\<lambda>r. Some (snap_of r))\<rparr>"
  shows "(\<forall>userDoc. usersCollection userId = Some userDoc \<and> snap_exists userDoc
            \<and> (\<forall>r\<in>set (enrolled_refs userDoc). \<not> to_string_raises r) \<longrightarrow>
            fetchEnrolledClassesWithParents db usersCollection userId
              = Inr (spec_subjects doc_of snap_of (enrolled_refs userDoc),
                     spec_warnings doc_of snap_of (enrolled_refs userDoc))
            \<and> (\<forall>r\<in>set (enrolled_refs userDoc).
                  fst (spec_resolve doc_of snap_of r) = None \<longrightarrow>
                  (\<exists>w. snd (spec_resolve doc_of snap_of r) = [w]
                       \<and> w \<in> set (spec_warnings doc_of snap_of (enrolled_refs userDoc)))))
       \<and> (\<forall>userDoc. usersCollection userId = Some userDoc \<and> \<not> snap_exists userDoc \<longrightarrow>
            fetchEnrolledClassesWithParents db usersCollection userId = Inl UserProfileNotFound)
       \<and> (fetchEnrolledClassesWithParents db usersCollection userId = Inl UserProfileNotFound \<longrightarrow>
            (\<exists>userDoc. usersCollection userId = Some userDoc \<and> \<not> snap_exists userDoc))
       \<and> (\<forall>s. field (subject_record s JNull) ''parentClass'' = JNull)"
proof (intro conjI allI impI ballI)
  fix userDoc
  assume "usersCollection userId = Some userDoc \<and> snap_exists userDoc
            \<and> (\<forall>r\<in>set (enrolled_refs userDoc). \<not> to_string_raises r)"
  then show "fetchEnrolledClassesWithParents db usersCollection userId
              = Inr (spec_subjects doc_of snap_of (enrolled_refs userDoc),
                     spec_warnings doc_of snap_of (enrolled_refs userDoc))"
    using fetch_total [OF assms] by blast
next
  fix userDoc r
  assume "r \<in> set (enrolled_refs userDoc)" "fst (spec_resolve doc_of snap_of r) = None"
  then show "\<exists>w. snd (spec_resolve doc_of snap_of r) = [w]
                       \<and> w \<in> set (spec_warnings doc_of snap_of (enrolled_refs userDoc))"
    by (rule skipped_has_warning)
next
  fix userDoc
  assume "usersCollection userId = Some userDoc \<and> \<not> snap_exists userDoc"
  then show "fetchEnrolledClassesWithParents db usersCollection userId = Inl UserProfileNotFound"
    by (simp add: fetchEnrolledClassesWithParents_def)
next
  assume "fetchEnrolledClassesWithParents db usersCollection userId = Inl UserProfileNotFound"
  then show "\<exists>userDoc. usersCollection userId = Some userDoc \<and> \<not> snap_exists userDoc"
    by (rule fetch_not_found)
next
  fix s show "field (subject_record s JNull) ''parentClass'' = JNull"
    by (rule parentClass_of_subject_record)
qed

lemma demo_paths:
  "demo_db_doc ''/school/s1/classes/A/subjects/maths'' = ''school/s1/classes/A/subjects/maths''"
  "demo_db_doc ''/school/s1/classes/A/subjects/gone'' = ''school/s1/classes/A/subjects/gone''"
  "demo_db_doc ''/school/s1/classes/A'' = ''school/s1/classes/A''"
  "demo_db_doc ''/school/s1/classes/B'' = ''school/s1/classes/B''"
  "spec_deriveParentPath (JRef ''school/s1/classes/A/subjects/maths'') = Some ''/school/s1/classes/A''"
  "spec_deriveParentPath (JRef ''school/s1/classes/A/subjects/gone'') = Some ''/school/s1/classes/A''"
  "spec_deriveParentPath (JRef ''school/s1/classes/B/subjects/art'') = Some ''/school/s1/classes/B''"
  "spec_deriveParentPath (JRef ''school/s1/classes/A'') = None"
  by (simp_all add: demo_db_doc_def path_segments_def spec_deriveParentPath_def input_path_def)

theorem fetchEnrolled_tolerant_witness:
  "fetchEnrolledClassesWithParents demo_db demo_users ''u1''
     = Inr ([[(''id'', JStr ''maths''),
              (''refPath'', JStr ''school/s1/classes/A/subjects/maths''),
              (''title'', JStr ''Maths''),
              (''parentClass'', JObj [(''id'', JStr ''A''), (''name'', JStr ''First A'')])],
             [(''id'', JStr ''art''),
              (''refPath'', JStr ''school/s1/classes/B/subjects/art''),
              (''title'', JStr ''Art''),
              (''parentClass'', JNull)]],
            [InvalidReference (JStr ''not-a-path''),
             NoParentPath ''school/s1/classes/A'',
             ParentNotFound ''/school/s1/classes/B'',
             SubjectNotFound ''school/s1/classes/A/subjects/gone''])
   \<and> fetchEnrolledClassesWithParents demo_db demo_users ''u2'' = Inl UserProfileNotFound"
  using fetchEnrolled_tolerant [of demo_db demo_db_doc demo_snap demo_users "''u1''"]
    fetchEnrolled_tolerant [of demo_db demo_db_doc demo_snap demo_users "''u2''"]
  by (simp add: demo_db_def demo_users_def enrolled_refs_def field_def demo_enrolled_def
      spec_subjects_def spec_warnings_def map_filter_simps spec_resolve_def spec_handle_def
      starts_with_slash_def demo_paths demo_snap_def subject_record_def class_data_def
      merge_fields_def)


text \<open>
  C4 (failing input): the claim says that a reference of the wrong type is skipped with a
  warning and never fails the call. The warning is built with the item in a template
  literal, and for a stored map with a property named \<open>toString\<close> this conversion
  raises: the call of the example ends in a \<open>TypeError\<close>, although the user exists
  and the first reference is good.
\<close>

theorem fetchEnrolled_warning_raises:
  "fetchEnrolledClassesWithParents demo_db demo_bad_users ''u1'' = Inl (JsError TypeError)"
proof -
  have d: "db_doc demo_db p = Some (demo_db_doc p)" for p
    by (simp add: demo_db_def)
  show ?thesis
    by (simp add: fetchEnrolledClassesWithParents_def demo_bad_users_def enrolled_refs_def
        field_def collect_ref_def warn_invalid_def starts_with_slash_def d
        collect_pair_total [OF demo_db_def] demo_paths)
qed

end
